theory Spec2Isabelle
  imports Complex_Main "HOL-Library.Word"
begin

unbundle bit_operations_syntax

section \<open>Data model\<close>

text \<open>
  Instants are UTC and counted in nanoseconds since the epoch. Strings are Go strings:
  lists of bytes.
\<close>

type_synonym timestamp = int

definition Second :: int where
  "Second = 1000000000"

text \<open>
  A \<^verbatim>\<open>time.Duration\<close> is an \<^verbatim>\<open>int64\<close> count of nanoseconds, at most about 292 years in
  either direction. \<open>int64\<close> is the value an \<^verbatim>\<open>int64\<close> holds after an arithmetic result
  wrapped around; \<open>Duration_seconds n\<close> is \<^verbatim>\<open>time.Duration(n) * time.Second\<close>, a product
  that wraps around; \<open>Sub t u\<close> is \<^verbatim>\<open>t.Sub(u)\<close>, which returns the largest or the smallest
  duration when the difference does not fit.
\<close>

definition int64 :: "int \<Rightarrow> int" where
  "int64 x = (x + 9223372036854775808) mod 18446744073709551616 - 9223372036854775808"

definition minDuration :: int where
  "minDuration = - 9223372036854775808"

definition maxDuration :: int where
  "maxDuration = 9223372036854775807"

definition Duration_seconds :: "int \<Rightarrow> int" where
  "Duration_seconds n = int64 (n * Second)"

text \<open>The zero \<^verbatim>\<open>time.Time\<close>: 0001-01-01T00:00:00Z.\<close>

definition zeroTime :: timestamp where
  "zeroTime = - 62135596800 * Second"

definition Sub :: "timestamp \<Rightarrow> timestamp \<Rightarrow> int" where
  "Sub t u =
     (if t - u < minDuration then minDuration
      else if maxDuration < t - u then maxDuration
      else t - u)"

text \<open>
  A \<^verbatim>\<open>float64\<close> as far as comparison sees it: not-a-number, the two infinities and the
  finite values. Rounding of arithmetic is not modelled.
\<close>

datatype float64 = NaN | NegInf | Fin real | PosInf

text \<open>\<^verbatim>\<open>models.Service\<close> and \<^verbatim>\<open>models.Container\<close> (src/internal/alerts/engine.go, models part).\<close>

record Service =
  s_ID :: string
  s_Name :: string
  s_Image :: string
  s_LabelsJSON :: string
  s_Status :: string

record Container =
  c_ID :: string
  c_ServiceID :: string
  c_Name :: string
  c_Status :: string
  c_StartedAt :: "timestamp option"
  c_LastSeenAt :: timestamp
  c_RestartCount :: int

record HostMetric =
  hm_TS :: timestamp
  hm_CPUPct :: float64
  hm_MemUsedBytes :: int
  hm_MemTotalBytes :: int
  hm_NetRXBytes :: int
  hm_NetTXBytes :: int
  hm_DiskUsedBytes :: int
  hm_DiskTotalBytes :: int
  hm_Load1 :: float64
  hm_Load5 :: float64
  hm_Load15 :: float64
  hm_UptimeSec :: int

record ContainerMetric =
  cm_TS :: timestamp
  cm_ContainerID :: string
  cm_CPUPct :: float64
  cm_MemUsedBytes :: int
  cm_MemLimitBytes :: int
  cm_NetRXBytes :: int
  cm_NetTXBytes :: int
  cm_BlkReadBytes :: int
  cm_BlkWriteBytes :: int

record LogEntry =
  le_TS :: timestamp
  le_ServiceID :: string
  le_ContainerID :: string
  le_Level :: string
  le_Stream :: string
  le_Message :: string

record AlertRule =
  r_ID :: int
  r_Name :: string
  r_TargetType :: string
  r_TargetID :: "string option"
  r_MetricKey :: string
  r_Operator :: string
  r_Threshold :: float64
  r_ForSeconds :: int
  r_CooldownSeconds :: int
  r_Enabled :: bool

section \<open>The store\<close>

text \<open>
  The tables of \<^verbatim>\<open>Migrate\<close> (src/unnamed/part_003), each a list of rows in rowid order.
  The store is opened with foreign keys on, so a write whose foreign key has no parent row
  fails and changes nothing. Failures of the storage medium itself are not modelled.
\<close>

record services_row =
  sr_id :: string
  sr_name :: string
  sr_image :: string
  sr_labels_json :: string
  sr_first_seen_at :: timestamp
  sr_last_seen_at :: timestamp
  sr_status :: string

record alert_states_row =
  as_rule_id :: int
  as_target_fingerprint :: string
  as_state :: string
  as_since_ts :: timestamp
  as_last_fired_ts :: "timestamp option"
  as_last_recovered_ts :: "timestamp option"

text \<open>
  The text that \<^verbatim>\<open>fmt.Sprintf\<close> renders for a notification, kept as its format and
  arguments: \<^verbatim>\<open>"ALERT %s [%s] value=%.2f threshold %s %.2f"\<close> and
  \<^verbatim>\<open>"RECOVERY %s [%s] value=%.2f"\<close>.
\<close>

datatype notice =
  ALERT string string float64 string float64
| RECOVERY string string float64

record alerts_row =
  a_id :: int
  a_rule_id :: int
  a_target_fingerprint :: string
  a_status :: string
  a_started_ts :: timestamp
  a_ended_ts_nullable :: "timestamp option"
  a_summary :: notice
  a_details :: "float64 \<times> string"

record notification_events_row =
  ne_id :: int
  ne_alert_id :: int
  ne_channel :: string
  ne_status :: string
  ne_attempts :: int
  ne_last_error :: string
  ne_sent_ts_nullable :: "timestamp option"

record Repository =
  services :: "services_row list"
  containers :: "Container list"
  host_metrics :: "HostMetric list"
  container_metrics :: "ContainerMetric list"
  logs :: "LogEntry list"
  alert_rules :: "AlertRule list"
  alert_states :: "alert_states_row list"
  alerts :: "alerts_row list"
  notification_events :: "notification_events_row list"
  alerts_seq :: int
  notification_events_seq :: int

datatype db_error = ErrNoRows | ErrForeignKey

subsection \<open>UpsertServiceAndContainer\<close>

fun upsert_service :: "services_row \<Rightarrow> services_row list \<Rightarrow> services_row list" where
  "upsert_service new [] = [new]"
| "upsert_service new (x # xs) =
     (if sr_id x = sr_id new
      then x\<lparr>sr_name := sr_name new, sr_image := sr_image new,
              sr_labels_json := sr_labels_json new,
              sr_last_seen_at := sr_last_seen_at new, sr_status := sr_status new\<rparr> # xs
      else x # upsert_service new xs)"

fun upsert_container :: "Container \<Rightarrow> Container list \<Rightarrow> Container list" where
  "upsert_container new [] = [new]"
| "upsert_container new (x # xs) =
     (if c_ID x = c_ID new
      then x\<lparr>c_ServiceID := c_ServiceID new, c_Name := c_Name new,
              c_Status := c_Status new, c_LastSeenAt := c_LastSeenAt new,
              c_RestartCount := c_RestartCount new\<rparr> # xs
      else x # upsert_container new xs)"

definition UpsertServiceAndContainer ::
  "timestamp \<Rightarrow> Service \<Rightarrow> Container \<Rightarrow> Repository \<Rightarrow> db_error option \<times> Repository" where
  "UpsertServiceAndContainer now svc c repo =
     (let repo1 = repo\<lparr>services :=
            upsert_service
              \<lparr>sr_id = s_ID svc, sr_name = s_Name svc, sr_image = s_Image svc,
               sr_labels_json = s_LabelsJSON svc, sr_first_seen_at = now,
               sr_last_seen_at = now, sr_status = s_Status svc\<rparr>
              (services repo)\<rparr>
      in if c_ServiceID c \<in> set (map sr_id (services repo1))
         then (None, repo1\<lparr>containers :=
                 upsert_container (c\<lparr>c_LastSeenAt := now\<rparr>) (containers repo1)\<rparr>)
         else (Some ErrForeignKey, repo1))"

definition service_by_id :: "Repository \<Rightarrow> string \<Rightarrow> services_row option" where
  "service_by_id repo i = find (\<lambda>r. sr_id r = i) (services repo)"

definition container_by_id :: "Repository \<Rightarrow> string \<Rightarrow> Container option" where
  "container_by_id repo i = find (\<lambda>r. c_ID r = i) (containers repo)"

subsection \<open>Timestamps as the store holds them\<close>

text \<open>
  The driver (\<^verbatim>\<open>github.com/mattn/go-sqlite3\<close>) binds a \<^verbatim>\<open>time.Time\<close> as the text
  \<^verbatim>\<open>v.Format("2006-01-02 15:04:05.999999999-07:00")\<close>, and every time the repository
  binds went through \<^verbatim>\<open>.UTC()\<close>. The columns are declared \<^verbatim>\<open>DATETIME\<close>; such a text is
  not a number, so it is stored as text, and \<^verbatim>\<open>ts < ?\<close> compares two texts byte by byte.
  The rows below keep the instant that was written; the comparisons of the store see its
  text.

  The calendar of \<^verbatim>\<open>time.Time\<close>: proleptic Gregorian, with a year 0, which is a leap year.
  \<open>yearOf y d\<close> walks from the first day of year \<open>y\<close> over \<open>d\<close> days and returns the year
  reached and the day within it; \<open>monthOf\<close> does the same with the months of a year.
  \<open>civil z\<close> is the date of the day \<open>z\<close> days after 0000-01-01; 400 years are 146097 days,
  and 1970-01-01 is day 719528.
\<close>

definition isLeap :: "int \<Rightarrow> bool" where
  "isLeap year = (year mod 4 = 0 \<and> (year mod 100 \<noteq> 0 \<or> year mod 400 = 0))"

definition daysInYear :: "int \<Rightarrow> int" where
  "daysInYear year = (if isLeap year then 366 else 365)"

definition daysIn :: "bool \<Rightarrow> int \<Rightarrow> int" where
  "daysIn leap m =
     (if m = 2 then (if leap then 29 else 28)
      else if m = 4 \<or> m = 6 \<or> m = 9 \<or> m = 11 then 30
      else 31)"

function yearOf :: "int \<Rightarrow> int \<Rightarrow> int \<times> int" where
  "yearOf y d = (if d < daysInYear y then (y, d) else yearOf (y + 1) (d - daysInYear y))"
  by pat_completeness auto
termination
  by (relation "measure (\<lambda>(y, d). nat d)") (auto simp add: daysInYear_def split: if_splits)

declare yearOf.simps [simp del]

function monthOf :: "bool \<Rightarrow> int \<Rightarrow> int \<Rightarrow> int \<times> int" where
  "monthOf leap m d =
     (if d < daysIn leap m then (m, d) else monthOf leap (m + 1) (d - daysIn leap m))"
  by pat_completeness auto
termination
  by (relation "measure (\<lambda>(leap, m, d). nat d)") (auto simp add: daysIn_def split: if_splits)

declare monthOf.simps [simp del]

definition civil :: "int \<Rightarrow> int \<times> int \<times> int" where
  "civil z =
     (let (yoe, doy) = yearOf 0 (z mod 146097);
          (m, dom) = monthOf (isLeap yoe) 1 doy
      in (400 * (z div 146097) + yoe, m, dom + 1))"

text \<open>\<^verbatim>\<open>t.Date()\<close> of a UTC time: year, month and day.\<close>

definition Date :: "timestamp \<Rightarrow> int \<times> int \<times> int" where
  "Date t = civil (t div Second div 86400 + 719528)"

text \<open>
  \<^verbatim>\<open>appendInt(b, x, width)\<close> of package \<^verbatim>\<open>time\<close>: the decimal digits of \<open>x\<close>, padded with
  zeros to \<open>width\<close> places, after a minus sign for a negative \<open>x\<close>; a number with more
  digits is written in full. The function has two short cuts, for two and for four
  places.
\<close>

definition utod :: "int \<Rightarrow> char" where
  "utod u = char_of (48 + u)"

function decimal :: "int \<Rightarrow> string" where
  "decimal u = (if u < 10 then [utod u] else decimal (u div 10) @ [utod (u mod 10)])"
  by pat_completeness auto
termination
  by (relation "measure nat") auto

declare decimal.simps [simp del]

definition appendInt :: "int \<Rightarrow> nat \<Rightarrow> string" where
  "appendInt x width =
     (let u = \<bar>x\<bar>
      in (if x < 0 then ''-'' else [])
         @ (if width = 2 \<and> u < 100 then [utod (u div 10), utod (u mod 10)]
            else if width = 4 \<and> u < 10000
            then [utod (u div 1000), utod (u div 100 mod 10), utod (u div 10 mod 10),
                  utod (u mod 10)]
            else replicate (width - length (decimal u)) (CHR ''0'') @ decimal u))"

text \<open>
  The fraction \<^verbatim>\<open>.999999999\<close>: nothing for a whole second, otherwise the point and the
  nine digits of the nanoseconds without their trailing zeros.
\<close>

definition trimz :: "string \<Rightarrow> string" where
  "trimz xs = rev (dropWhile (\<lambda>c. c = CHR ''0'') (rev xs))"

definition appendNano :: "int \<Rightarrow> string" where
  "appendNano nanosec =
     (if nanosec = 0 then [] else CHR ''.'' # trimz (appendInt nanosec 9))"

definition SQLiteTimestamp :: "timestamp \<Rightarrow> string" where
  "SQLiteTimestamp t =
     (let (year, month, day) = Date t;
          sod = t div Second mod 86400
      in appendInt year 4 @ ''-'' @ appendInt month 2 @ ''-'' @ appendInt day 2 @ '' ''
         @ appendInt (sod div 3600) 2 @ '':'' @ appendInt (sod mod 3600 div 60) 2 @ '':''
         @ appendInt (sod mod 60) 2 @ appendNano (t mod Second) @ ''+00:00'')"

text \<open>
  The order of two texts in the store (collation \<^verbatim>\<open>BINARY\<close>): by the first byte in
  which they differ, a proper prefix before the longer text.
\<close>

fun text_lt :: "string \<Rightarrow> string \<Rightarrow> bool" where
  "text_lt [] [] = False"
| "text_lt [] (y # ys) = True"
| "text_lt (x # xs) [] = False"
| "text_lt (x # xs) (y # ys) =
     ((of_char x :: int) < of_char y \<or> (x = y \<and> text_lt xs ys))"

text \<open>\<^verbatim>\<open>ts < ?\<close> as the store decides it for the time bound to \<^verbatim>\<open>?\<close>.\<close>

definition stored_before :: "timestamp \<Rightarrow> timestamp \<Rightarrow> bool" where
  "stored_before ts cutoff = text_lt (SQLiteTimestamp ts) (SQLiteTimestamp cutoff)"

text \<open>
  The instants whose year has four digits: from 0000-01-01T00:00:00Z up to, but not
  including, 10000-01-01T00:00:00Z.
\<close>

definition year0 :: timestamp where
  "year0 = - 62167219200 * Second"

definition year10000 :: timestamp where
  "year10000 = 253402300800 * Second"

definition four_digit_year :: "timestamp \<Rightarrow> bool" where
  "four_digit_year t = (year0 \<le> t \<and> t < year10000)"

text \<open>
  Reading a time back: the driver parses the stored text with its timestamp layouts,
  which all begin with a year of four digits, and returns the zero time for a text that
  none of them parses. The text of an instant with a four-digit year parses to that
  instant.
\<close>

definition scan_time :: "timestamp \<Rightarrow> timestamp" where
  "scan_time t = (if four_digit_year t then t else zeroTime)"

text \<open>
  For the proofs: the digits of \<open>u\<close> in exactly \<open>k\<close> places, and the bytes that are not
  below the digit zero.
\<close>

fun fixed :: "nat \<Rightarrow> int \<Rightarrow> string" where
  "fixed 0 u = []"
| "fixed (Suc k) u = fixed k (u div 10) @ [utod (u mod 10)]"

definition digit :: "char \<Rightarrow> bool" where
  "digit c = (48 \<le> (of_char c :: int))"

subsection \<open>DeleteOlderThan\<close>

text \<open>
  Four deletes with the same cutoff, bound as \<^verbatim>\<open>cutoff.UTC()\<close>; deleting an alert cascades
  to its notification events. The checkpoint and the optimizer hint do not change any row.
\<close>

definition DeleteOlderThan :: "timestamp \<Rightarrow> Repository \<Rightarrow> db_error option \<times> Repository" where
  "DeleteOlderThan cutoff repo =
     (let gone = [a \<leftarrow> alerts repo.
                    stored_before (a_started_ts a) cutoff \<and> a_status a = ''recovered'']
      in (None,
          repo\<lparr>host_metrics := [m \<leftarrow> host_metrics repo. \<not> stored_before (hm_TS m) cutoff],
               container_metrics :=
                 [m \<leftarrow> container_metrics repo. \<not> stored_before (cm_TS m) cutoff],
               logs := [l \<leftarrow> logs repo. \<not> stored_before (le_TS l) cutoff],
               alerts := [a \<leftarrow> alerts repo.
                            \<not> (stored_before (a_started_ts a) cutoff
                               \<and> a_status a = ''recovered'')],
               notification_events :=
                 [e \<leftarrow> notification_events repo. ne_alert_id e \<notin> set (map a_id gone)]\<rparr>))"

subsection \<open>Alert rules, states, alerts and notification events\<close>

definition GetAlertState :: "Repository \<Rightarrow> int \<Rightarrow> string \<Rightarrow> db_error + alert_states_row" where
  "GetAlertState repo ruleID target =
     (case find (\<lambda>r. as_rule_id r = ruleID \<and> as_target_fingerprint r = target)
             (alert_states repo) of
        None \<Rightarrow> Inl ErrNoRows
      | Some row \<Rightarrow>
          Inr (row\<lparr>as_since_ts := scan_time (as_since_ts row),
                   as_last_fired_ts := map_option scan_time (as_last_fired_ts row),
                   as_last_recovered_ts := map_option scan_time (as_last_recovered_ts row)\<rparr>))"

fun upsert_state :: "alert_states_row \<Rightarrow> alert_states_row list \<Rightarrow> alert_states_row list" where
  "upsert_state new [] = [new]"
| "upsert_state new (x # xs) =
     (if as_rule_id x = as_rule_id new \<and> as_target_fingerprint x = as_target_fingerprint new
      then new # xs
      else x # upsert_state new xs)"

definition UpsertAlertState ::
  "Repository \<Rightarrow> int \<Rightarrow> string \<Rightarrow> string \<Rightarrow> timestamp \<Rightarrow> timestamp option \<Rightarrow> timestamp option
     \<Rightarrow> db_error option \<times> Repository" where
  "UpsertAlertState repo ruleID target state since lastFired lastRecovered =
     (if ruleID \<in> r_ID ` set (alert_rules repo)
      then (None,
            repo\<lparr>alert_states :=
              upsert_state
                \<lparr>as_rule_id = ruleID, as_target_fingerprint = target, as_state = state,
                 as_since_ts = since, as_last_fired_ts = lastFired,
                 as_last_recovered_ts = lastRecovered\<rparr>
                (alert_states repo)\<rparr>)
      else (Some ErrForeignKey, repo))"

text \<open>
  \<open>alerts.id\<close> and \<open>notification_events.id\<close> are \<^verbatim>\<open>AUTOINCREMENT\<close>: a new row takes the
  successor of the largest id the table ever held, kept in \<open>alerts_seq\<close> and
  \<open>notification_events_seq\<close> (0 for a table that never held a row).
\<close>

definition CreateAlert ::
  "Repository \<Rightarrow> int \<Rightarrow> string \<Rightarrow> string \<Rightarrow> notice \<Rightarrow> float64 \<times> string \<Rightarrow> timestamp
     \<Rightarrow> (db_error + int) \<times> Repository" where
  "CreateAlert repo ruleID target status summary details started =
     (if ruleID \<in> r_ID ` set (alert_rules repo)
      then (Inr (alerts_seq repo + 1),
            repo\<lparr>alerts := alerts repo @
                    [\<lparr>a_id = alerts_seq repo + 1, a_rule_id = ruleID,
                      a_target_fingerprint = target, a_status = status,
                      a_started_ts = started, a_ended_ts_nullable = None,
                      a_summary = summary, a_details = details\<rparr>],
                 alerts_seq := alerts_seq repo + 1\<rparr>)
      else (Inl ErrForeignKey, repo))"

definition CloseAlert :: "Repository \<Rightarrow> int \<Rightarrow> string \<Rightarrow> timestamp \<Rightarrow> db_error option \<times> Repository" where
  "CloseAlert repo ruleID target ended =
     (None,
      repo\<lparr>alerts :=
        map (\<lambda>a. if a_rule_id a = ruleID \<and> a_target_fingerprint a = target
                     \<and> a_status a = ''firing''
                  then a\<lparr>a_status := ''recovered'', a_ended_ts_nullable := Some ended\<rparr>
                  else a)
            (alerts repo)\<rparr>)"

definition InsertNotificationEvent ::
  "Repository \<Rightarrow> int \<Rightarrow> string \<Rightarrow> string \<Rightarrow> int \<Rightarrow> string \<Rightarrow> timestamp option
     \<Rightarrow> db_error option \<times> Repository" where
  "InsertNotificationEvent repo alertID channel status attempts lastErr sent =
     (if alertID \<in> a_id ` set (alerts repo)
      then (None,
            repo\<lparr>notification_events := notification_events repo @
                    [\<lparr>ne_id = notification_events_seq repo + 1, ne_alert_id = alertID,
                      ne_channel = channel, ne_status = status, ne_attempts = attempts,
                      ne_last_error = lastErr, ne_sent_ts_nullable = sent\<rparr>],
                 notification_events_seq := notification_events_seq repo + 1\<rparr>)
      else (Some ErrForeignKey, repo))"

definition ListRules :: "Repository \<Rightarrow> AlertRule list" where
  "ListRules repo = sort_key r_ID (alert_rules repo)"

definition ListContainers :: "Repository \<Rightarrow> Container list" where
  "ListContainers repo =
     map (\<lambda>c. c\<lparr>c_StartedAt := map_option scan_time (c_StartedAt c),
                  c_LastSeenAt := scan_time (c_LastSeenAt c)\<rparr>)
         (containers repo)"

text \<open>
  \<^verbatim>\<open>ORDER BY ts DESC LIMIT 1\<close>: a row whose \<open>ts\<close> is last in the order of the store (the
  earliest such row in rowid order; SQL leaves the choice among equal timestamps open).
\<close>

definition LatestHostMetric :: "Repository \<Rightarrow> db_error + HostMetric" where
  "LatestHostMetric repo =
     (case host_metrics repo of
        [] \<Rightarrow> Inl ErrNoRows
      | m # ms \<Rightarrow>
          let latest =
                fold (\<lambda>x best. if stored_before (hm_TS best) (hm_TS x) then x else best) ms m
          in Inr (latest\<lparr>hm_TS := scan_time (hm_TS latest)\<rparr>))"

subsection \<open>Schema migration and rule thresholds\<close>

text \<open>
  The store after \<^verbatim>\<open>Migrate\<close> on an empty file: empty tables and the five seeded rules,
  which take the ids 1 to 5 (src/unnamed/part_003, \<^verbatim>\<open>seedDefaultRules\<close>).
\<close>

definition seed_rule :: "int \<Rightarrow> string \<Rightarrow> string \<Rightarrow> string \<Rightarrow> string \<Rightarrow> real \<Rightarrow> int \<Rightarrow> int \<Rightarrow> AlertRule" where
  "seed_rule i name targetType metricKey op th forSec cooldown =
     \<lparr>r_ID = i, r_Name = name, r_TargetType = targetType, r_TargetID = None,
      r_MetricKey = metricKey, r_Operator = op, r_Threshold = Fin th,
      r_ForSeconds = forSec, r_CooldownSeconds = cooldown, r_Enabled = True\<rparr>"

definition seedDefaultRules :: "AlertRule list" where
  "seedDefaultRules =
     [seed_rule 1 ''Host CPU high'' ''host'' ''host_cpu_pct'' ''>'' 90 120 600,
      seed_rule 2 ''Host memory high'' ''host'' ''host_mem_pct'' ''>'' 90 120 600,
      seed_rule 3 ''Host disk high'' ''host'' ''host_disk_pct'' ''>'' 85 300 1800,
      seed_rule 4 ''Container unavailable'' ''container'' ''container_unavailable'' ''>='' 1 60 600,
      seed_rule 5 ''Container restarted'' ''container'' ''container_restarts'' ''>='' 1 0 60]"

definition Migrate :: Repository where
  "Migrate =
     \<lparr>services = [], containers = [], host_metrics = [], container_metrics = [], logs = [],
      alert_rules = seedDefaultRules, alert_states = [], alerts = [],
      notification_events = [], alerts_seq = 0, notification_events_seq = 0\<rparr>"

definition UpdateRuleThresholds ::
  "Repository \<Rightarrow> int \<Rightarrow> float64 \<Rightarrow> int \<Rightarrow> int \<Rightarrow> bool \<Rightarrow> Repository" where
  "UpdateRuleThresholds repo i threshold forSec cooldown enabled =
     repo\<lparr>alert_rules :=
       map (\<lambda>r. if r_ID r = i
                 then r\<lparr>r_Threshold := threshold, r_ForSeconds := forSec,
                        r_CooldownSeconds := cooldown, r_Enabled := enabled\<rparr>
                 else r)
           (alert_rules repo)\<rparr>"

section \<open>Alert engine\<close>

text \<open>Comparison of \<^verbatim>\<open>float64\<close> values: every comparison with not-a-number is false.\<close>

fun f64_lt :: "float64 \<Rightarrow> float64 \<Rightarrow> bool" where
  "f64_lt NaN _ = False"
| "f64_lt _ NaN = False"
| "f64_lt _ NegInf = False"
| "f64_lt PosInf _ = False"
| "f64_lt NegInf _ = True"
| "f64_lt _ PosInf = True"
| "f64_lt (Fin a) (Fin b) = (a < b)"

fun f64_eq :: "float64 \<Rightarrow> float64 \<Rightarrow> bool" where
  "f64_eq NaN _ = False"
| "f64_eq _ NaN = False"
| "f64_eq a b = (a = b)"

definition compare :: "float64 \<Rightarrow> string \<Rightarrow> float64 \<Rightarrow> bool" where
  "compare v op threshold =
     (if op = ''>'' then f64_lt threshold v
      else if op = ''>='' then f64_lt threshold v \<or> f64_eq v threshold
      else if op = ''<'' then f64_lt v threshold
      else if op = ''<='' then f64_lt v threshold \<or> f64_eq v threshold
      else if op = ''=='' then f64_eq v threshold
      else False)"

definition shortTarget :: "string \<Rightarrow> string" where
  "shortTarget i = (if length i > 12 then take 12 i else i)"

text \<open>
  What the engine cannot decide itself: the readings of its clock \<^verbatim>\<open>e.now\<close>, in the order
  they are taken, and the outcome of each call of \<^verbatim>\<open>notify.Send\<close> (\<open>None\<close> for success,
  otherwise the error text), by the number of calls made before it.
\<close>

record Env =
  clock :: "nat \<Rightarrow> timestamp"
  notify_Send :: "nat \<Rightarrow> notice \<Rightarrow> string option"


text \<open>
  The engine's fields, the store it writes to, the number of clock readings taken so far
  and every text handed to \<^verbatim>\<open>notify.Send\<close> so far.
\<close>

record Engine =
  e_repo :: Repository
  e_lastHost :: "string \<rightharpoonup> float64"
  e_lastRest :: "string \<rightharpoonup> int"
  e_lastSvc :: "string \<rightharpoonup> string"
  e_now_calls :: nat
  e_sent :: "notice list"

function sendNotification_loop ::
  "Env \<Rightarrow> int \<Rightarrow> notice \<Rightarrow> nat \<Rightarrow> string \<Rightarrow> Engine \<Rightarrow> Engine" where
  "sendNotification_loop env alertID msg attempts err e =
     (if attempts < 3
      then (case notify_Send env (length (e_sent e)) msg of
              None \<Rightarrow>
                e\<lparr>e_repo := snd (InsertNotificationEvent (e_repo e) alertID ''telegram'' ''sent''
                                 (int (attempts + 1)) '''' (Some (clock env (e_now_calls e)))),
                  e_now_calls := e_now_calls e + 1,
                  e_sent := e_sent e @ [msg]\<rparr>
            | Some err' \<Rightarrow>
                sendNotification_loop env alertID msg (attempts + 1) err'
                  (e\<lparr>e_sent := e_sent e @ [msg]\<rparr>))
      else e\<lparr>e_repo := snd (InsertNotificationEvent (e_repo e) alertID ''telegram'' ''failed''
                            (int attempts) err None)\<rparr>)"
  by pat_completeness auto
termination
  by (relation "measure (\<lambda>(env, alertID, msg, attempts, err, e). 3 - attempts)") auto

declare sendNotification_loop.simps [simp del]

definition sendNotification :: "Env \<Rightarrow> int \<Rightarrow> notice \<Rightarrow> Engine \<Rightarrow> Engine" where
  "sendNotification env alertID msg e = sendNotification_loop env alertID msg 0 '''' e"

text \<open>
  The firing step, which \<^verbatim>\<open>evalTarget\<close> has twice (from OK and from PENDING): create the
  alert, notify if the alert was created, store the state FIRING. The two copies differ in
  the \<open>since\<close> they store.
\<close>

definition fire ::
  "Env \<Rightarrow> int \<Rightarrow> string \<Rightarrow> string \<Rightarrow> AlertRule \<Rightarrow> float64 \<Rightarrow> timestamp \<Rightarrow> timestamp \<Rightarrow> Engine
     \<Rightarrow> Engine" where
  "fire env ruleID targetKey targetLabel rule value now since e =
     (let msg = ALERT (r_Name rule) targetLabel value (r_Operator rule) (r_Threshold rule);
          (res, repo1) = CreateAlert (e_repo e) ruleID targetKey ''firing'' msg
                           (value, targetLabel) now;
          e1 = e\<lparr>e_repo := repo1\<rparr>;
          e2 = (case res of Inr alertID \<Rightarrow> sendNotification env alertID msg e1 | Inl _ \<Rightarrow> e1)
      in e2\<lparr>e_repo := snd (UpsertAlertState (e_repo e2) ruleID targetKey ''FIRING'' since
                           (Some now) None)\<rparr>)"

definition in_cooldown :: "AlertRule \<Rightarrow> timestamp \<Rightarrow> timestamp option \<Rightarrow> bool" where
  "in_cooldown rule now lastFired =
     (case lastFired of
        None \<Rightarrow> False
      | Some lf \<Rightarrow> Sub now lf < Duration_seconds (r_CooldownSeconds rule))"

definition evalTarget ::
  "Env \<Rightarrow> int \<Rightarrow> string \<Rightarrow> string \<Rightarrow> AlertRule \<Rightarrow> float64 \<Rightarrow> Engine \<Rightarrow> Engine" where
  "evalTarget env ruleID targetKey targetLabel rule value e0 =
     (if value = NaN then e0
      else
        let shouldFire = compare value (r_Operator rule) (r_Threshold rule);
            now = clock env (e_now_calls e0);
            e = e0\<lparr>e_now_calls := e_now_calls e0 + 1\<rparr>;
            (state, since, lastFired) =
              (case GetAlertState (e_repo e) ruleID targetKey of
                 Inl _ \<Rightarrow> (''OK'', now, None)
               | Inr row \<Rightarrow> (as_state row, as_since_ts row, as_last_fired_ts row))
        in
          if shouldFire then
            if state = ''OK'' then
              if r_ForSeconds rule \<le> 0 then
                if in_cooldown rule now lastFired
                then e\<lparr>e_repo := snd (UpsertAlertState (e_repo e) ruleID targetKey ''COOLDOWN''
                                     now lastFired None)\<rparr>
                else fire env ruleID targetKey targetLabel rule value now now e
              else e\<lparr>e_repo := snd (UpsertAlertState (e_repo e) ruleID targetKey ''PENDING''
                                    now lastFired None)\<rparr>
            else if state = ''PENDING''
                      \<and> Sub now since \<ge> Duration_seconds (r_ForSeconds rule) then
              if in_cooldown rule now lastFired
              then e\<lparr>e_repo := snd (UpsertAlertState (e_repo e) ruleID targetKey ''COOLDOWN''
                                   now lastFired None)\<rparr>
              else fire env ruleID targetKey targetLabel rule value now since e
            else e
          else if state = ''FIRING'' \<or> state = ''PENDING'' \<or> state = ''COOLDOWN'' then
            let e1 = e\<lparr>e_repo := snd (CloseAlert (e_repo e) ruleID targetKey now)\<rparr>;
                rmsg = RECOVERY (r_Name rule) targetLabel value;
                e2 = (if state = ''FIRING'' then sendNotification env 0 rmsg e1 else e1)
            in e2\<lparr>e_repo := snd (UpsertAlertState (e_repo e2) ruleID targetKey ''OK'' now
                                 lastFired (Some now))\<rparr>
          else e)"

text \<open>\<^verbatim>\<open>strings.EqualFold(s, "running")\<close>: no letter of \<open>running\<close> folds with a non-ASCII rune.\<close>

definition ascii_lower :: "char \<Rightarrow> char" where
  "ascii_lower c =
     (if (65::nat) \<le> of_char c \<and> of_char c \<le> (90::nat) then char_of (of_char c + (32::nat)) else c)"

definition EqualFold_running :: "string \<Rightarrow> bool" where
  "EqualFold_running s = (map ascii_lower s = ''running'')"

definition host_value :: "Engine \<Rightarrow> string \<Rightarrow> float64" where
  "host_value e k = (case e_lastHost e k of None \<Rightarrow> Fin 0 | Some v \<Rightarrow> v)"

definition pct :: "int \<Rightarrow> int \<Rightarrow> float64" where
  "pct used tot = Fin ((real_of_int used / real_of_int tot) * 100)"

definition eval_unavailable :: "Env \<Rightarrow> AlertRule \<Rightarrow> timestamp \<Rightarrow> Container \<Rightarrow> Engine \<Rightarrow> Engine" where
  "eval_unavailable env r now c e =
     (let v = (if EqualFold_running (c_Status c) \<and> Sub now (c_LastSeenAt c) > 60 * Second
               then Fin 1 else Fin 0)
      in evalTarget env (r_ID r) (c_ID c) (shortTarget (c_ID c)) r v e)"

definition eval_restarts :: "Env \<Rightarrow> AlertRule \<Rightarrow> Container \<Rightarrow> Engine \<Rightarrow> Engine" where
  "eval_restarts env r c e =
     (let restarted0 = (case e_lastRest e (c_ID c) of
                          Some prev \<Rightarrow> if c_RestartCount c > prev then Fin 1 else Fin 0
                        | None \<Rightarrow> Fin 0);
          restarted = (case e_lastSvc e (c_ServiceID c) of
                         Some prevID \<Rightarrow> if prevID \<noteq> c_ID c then Fin 1 else restarted0
                       | None \<Rightarrow> restarted0);
          e1 = e\<lparr>e_lastSvc := (e_lastSvc e)(c_ServiceID c \<mapsto> c_ID c),
                 e_lastRest := (e_lastRest e)(c_ID c \<mapsto> c_RestartCount c)\<rparr>
      in evalTarget env (r_ID r) (c_ID c) (shortTarget (c_ID c)) r restarted e1)"

definition eval_rule :: "Env \<Rightarrow> Container list \<Rightarrow> AlertRule \<Rightarrow> Engine \<Rightarrow> Engine" where
  "eval_rule env cs r e =
     (if \<not> r_Enabled r then e
      else if r_TargetType r = ''host''
      then evalTarget env (r_ID r) ''host'' ''host'' r (host_value e (r_MetricKey r)) e
      else if r_TargetType r = ''container''
      then
        let e1 = (if r_MetricKey r = ''container_unavailable''
                  then fold (eval_unavailable env r (clock env (e_now_calls e))) cs
                         (e\<lparr>e_now_calls := e_now_calls e + 1\<rparr>)
                  else e)
        in if r_MetricKey r = ''container_restarts''
           then fold (eval_restarts env r) cs e1
           else e1
      else e)"

definition Evaluate :: "Env \<Rightarrow> Engine \<Rightarrow> Engine" where
  "Evaluate env e0 =
     (let rules = ListRules (e_repo e0);
          e1 = (case LatestHostMetric (e_repo e0) of
                  Inl _ \<Rightarrow> e0
                | Inr latest \<Rightarrow>
                    let h1 = (e_lastHost e0)(''host_cpu_pct'' \<mapsto> hm_CPUPct latest);
                        h2 = (if hm_MemTotalBytes latest > 0
                              then h1(''host_mem_pct'' \<mapsto>
                                     pct (hm_MemUsedBytes latest) (hm_MemTotalBytes latest))
                              else h1);
                        h3 = (if hm_DiskTotalBytes latest > 0
                              then h2(''host_disk_pct'' \<mapsto>
                                     pct (hm_DiskUsedBytes latest) (hm_DiskTotalBytes latest))
                              else h2)
                    in e0\<lparr>e_lastHost := h3\<rparr>);
          cs = ListContainers (e_repo e1)
      in fold (eval_rule env cs) rules e1)"

definition NewEngine :: "Repository \<Rightarrow> Engine" where
  "NewEngine rp =
     \<lparr>e_repo = rp, e_lastHost = Map.empty, e_lastRest = Map.empty, e_lastSvc = Map.empty,
      e_now_calls = 0, e_sent = []\<rparr>"

section \<open>Stats normalizer\<close>

text \<open>
  \<^verbatim>\<open>docker.Stats\<close> (src/internal/docker/client.go), the fields \<^verbatim>\<open>NormalizeStats\<close> reads, the
  nested structs flattened into one record. Every counter is a \<^verbatim>\<open>uint64\<close>. The
  \<open>Networks\<close> map is a list of its entries.
\<close>

type_synonym uint64 = "64 word"

record Stats =
  CPUStats_CPUUsage_TotalUsage :: uint64
  CPUStats_CPUUsage_PercpuUsage :: "uint64 list"
  CPUStats_SystemCPUUsage :: uint64
  CPUStats_OnlineCPUs :: uint64
  PreCPUStats_CPUUsage_TotalUsage :: uint64
  PreCPUStats_SystemCPUUsage :: uint64
  MemoryStats_Usage :: uint64
  MemoryStats_Limit :: uint64
  Networks :: "(string \<times> uint64 \<times> uint64) list"
  BlkioStats_IoServiceBytesRecursive :: "(string \<times> uint64) list"

text \<open>
  \<^verbatim>\<open>float64(x)\<close> of a \<^verbatim>\<open>uint64\<close> is the number it holds; the rounding of the conversion
  and of the arithmetic after it is not modelled. The struct literal leaves \<open>TS\<close> at
  the zero time, 0001-01-01T00:00:00Z.
\<close>

definition float64_of_uint64 :: "uint64 \<Rightarrow> real" where
  "float64_of_uint64 x = real (unat x)"

definition int64_of_uint64 :: "uint64 \<Rightarrow> int" where
  "int64_of_uint64 x = sint x"

definition NormalizeStats :: "string \<Rightarrow> Stats \<Rightarrow> ContainerMetric" where
  "NormalizeStats i s =
     (let sysDelta = float64_of_uint64 (CPUStats_SystemCPUUsage s - PreCPUStats_SystemCPUUsage s);
          cpuDelta = float64_of_uint64
                       (CPUStats_CPUUsage_TotalUsage s - PreCPUStats_CPUUsage_TotalUsage s);
          cpus0 = float64_of_uint64 (CPUStats_OnlineCPUs s);
          cpus = (if cpus0 = 0
                  then (if real (length (CPUStats_CPUUsage_PercpuUsage s)) = 0 then 1
                        else real (length (CPUStats_CPUUsage_PercpuUsage s)))
                  else cpus0);
          cpuPct = (if sysDelta > 0 \<and> cpuDelta \<ge> 0
                    then (cpuDelta / sysDelta) * cpus * 100 else 0);
          rx = fold (\<lambda>(name, r, t) acc. acc + r) (Networks s) 0;
          tx = fold (\<lambda>(name, r, t) acc. acc + t) (Networks s) 0;
          br = fold (\<lambda>(op, v) acc. if op = ''Read'' then acc + v else acc)
                 (BlkioStats_IoServiceBytesRecursive s) 0;
          bw = fold (\<lambda>(op, v) acc. if op = ''Read'' then acc
                                   else if op = ''Write'' then acc + v else acc)
                 (BlkioStats_IoServiceBytesRecursive s) 0
      in \<lparr>cm_TS = zeroTime, cm_ContainerID = i, cm_CPUPct = Fin cpuPct,
          cm_MemUsedBytes = int64_of_uint64 (MemoryStats_Usage s),
          cm_MemLimitBytes = int64_of_uint64 (MemoryStats_Limit s),
          cm_NetRXBytes = int64_of_uint64 rx, cm_NetTXBytes = int64_of_uint64 tx,
          cm_BlkReadBytes = int64_of_uint64 br, cm_BlkWriteBytes = int64_of_uint64 bw\<rparr>)"

text \<open>
  The snapshot of \<^verbatim>\<open>TestNormalizeStats\<close> (src/internal/docker/normalize_test.go), and the
  same snapshot with the two system counters exchanged: the current one (100) is smaller
  than the previous one (200), as after a counter reset.
\<close>

definition test_stats :: Stats where
  "test_stats =
     \<lparr>CPUStats_CPUUsage_TotalUsage = 150, CPUStats_CPUUsage_PercpuUsage = [],
      CPUStats_SystemCPUUsage = 200, CPUStats_OnlineCPUs = 2,
      PreCPUStats_CPUUsage_TotalUsage = 100, PreCPUStats_SystemCPUUsage = 100,
      MemoryStats_Usage = 123, MemoryStats_Limit = 456,
      Networks = [(''eth0'', 10, 20)],
      BlkioStats_IoServiceBytesRecursive = [(''Read'', 7), (''Write'', 8)]\<rparr>"

definition reset_stats :: Stats where
  "reset_stats = test_stats\<lparr>CPUStats_SystemCPUUsage := 100, PreCPUStats_SystemCPUUsage := 200\<rparr>"

section \<open>Host sampler\<close>

text \<open>
  What the six reads of \<^verbatim>\<open>Collect\<close> returned (src/internal/collector/host.go): each either
  its error or its values. \<^verbatim>\<open>readCPU\<close> gives (total, idle), \<^verbatim>\<open>readMem\<close> (total, available),
  \<^verbatim>\<open>readNetDev\<close> (rx, tx), \<^verbatim>\<open>readDiskUsage\<close> (total, used), \<^verbatim>\<open>readLoadAvg\<close> the three
  loads and \<^verbatim>\<open>readUptimeSec\<close> the seconds.
\<close>

record host_reads =
  readCPU :: "string + uint64 \<times> uint64"
  readMem :: "string + uint64 \<times> uint64"
  readNetDev :: "string + uint64 \<times> uint64"
  readDiskUsage :: "string + uint64 \<times> uint64"
  readLoadAvg :: "string + float64 \<times> float64 \<times> float64"
  readUptimeSec :: "string + int"

record HostCollector =
  prevCPU :: "(uint64 \<times> uint64) option"

text \<open>\<^verbatim>\<open>models.HostMetric{}\<close>: every field at its zero value.\<close>

definition zero_HostMetric :: HostMetric where
  "zero_HostMetric =
     \<lparr>hm_TS = zeroTime, hm_CPUPct = Fin 0, hm_MemUsedBytes = 0, hm_MemTotalBytes = 0,
      hm_NetRXBytes = 0, hm_NetTXBytes = 0, hm_DiskUsedBytes = 0, hm_DiskTotalBytes = 0,
      hm_Load1 = Fin 0, hm_Load5 = Fin 0, hm_Load15 = Fin 0, hm_UptimeSec = 0\<rparr>"

definition Collect ::
  "timestamp \<Rightarrow> host_reads \<Rightarrow> HostCollector \<Rightarrow> (HostMetric \<times> string option) \<times> HostCollector" where
  "Collect now rd h =
     (case readCPU rd of
        Inl err \<Rightarrow> ((zero_HostMetric, Some err), h)
      | Inr (tot, idle) \<Rightarrow>
          let m0 = zero_HostMetric\<lparr>hm_TS := now\<rparr>;
              m1 = (case prevCPU h of
                      None \<Rightarrow> m0
                    | Some (ptot, pidle) \<Rightarrow>
                        if tot - ptot > 0
                        then m0\<lparr>hm_CPUPct :=
                               Fin (100 * (1 - float64_of_uint64 (idle - pidle)
                                               / float64_of_uint64 (tot - ptot)))\<rparr>
                        else m0);
              h' = h\<lparr>prevCPU := Some (tot, idle)\<rparr>;
              m2 = (case readMem rd of
                      Inr (memTotal, memAvail) \<Rightarrow>
                        if memTotal > 0
                        then m1\<lparr>hm_MemTotalBytes := int64_of_uint64 memTotal,
                                hm_MemUsedBytes := int64_of_uint64 (memTotal - memAvail)\<rparr>
                        else m1
                    | Inl _ \<Rightarrow> m1);
              m3 = (case readNetDev rd of
                      Inr (rx, tx) \<Rightarrow>
                        m2\<lparr>hm_NetRXBytes := int64_of_uint64 rx,
                            hm_NetTXBytes := int64_of_uint64 tx\<rparr>
                    | Inl _ \<Rightarrow> m2);
              m4 = (case readDiskUsage rd of
                      Inr (totalDisk, usedDisk) \<Rightarrow>
                        m3\<lparr>hm_DiskTotalBytes := int64_of_uint64 totalDisk,
                            hm_DiskUsedBytes := int64_of_uint64 usedDisk\<rparr>
                    | Inl _ \<Rightarrow> m3);
              m5 = (case readLoadAvg rd of
                      Inr (l1, l5, l15) \<Rightarrow> m4\<lparr>hm_Load1 := l1, hm_Load5 := l5, hm_Load15 := l15\<rparr>
                    | Inl _ \<Rightarrow> m4);
              m6 = (case readUptimeSec rd of
                      Inr up \<Rightarrow> m5\<lparr>hm_UptimeSec := up\<rparr>
                    | Inl _ \<Rightarrow> m5)
          in ((m6, None), h'))"

text \<open>A host whose \<^verbatim>\<open>/proc/stat\<close> cannot be read while every other source can.\<close>

definition reads_ok :: host_reads where
  "reads_ok =
     \<lparr>readCPU = Inr (1000, 400), readMem = Inr (8589934592, 4294967296),
      readNetDev = Inr (111, 222), readDiskUsage = Inr (1000000, 250000),
      readLoadAvg = Inr (Fin 1, Fin 2, Fin 3), readUptimeSec = Inr 3600\<rparr>"

definition reads_cpu_fails :: host_reads where
  "reads_cpu_fails = reads_ok\<lparr>readCPU := Inl ''open /proc/stat: permission denied''\<rparr>"

definition reads_mem_fails :: host_reads where
  "reads_mem_fails = reads_ok\<lparr>readMem := Inl ''meminfo parse failed''\<rparr>"

section \<open>Log stream parser\<close>

subsection \<open>Library functions the parser calls\<close>

text \<open>
  \<^verbatim>\<open>utf8.DecodeRune\<close>: the rune at the start of a byte string and its width. An invalid or
  truncated encoding is \<open>RuneError\<close> with width 1; the empty string gives width 0.
\<close>

definition RuneError :: nat where
  "RuneError = 65533"

definition RuneSelf :: nat where
  "RuneSelf = 128"

definition locb :: nat where "locb = 128"
definition hicb :: nat where "hicb = 191"

fun decode :: "nat list \<Rightarrow> nat \<times> nat" where
  "decode [] = (RuneError, 0)"
| "decode (p0 # ps) =
     (if p0 < RuneSelf then (p0, 1)
      else if p0 < 194 \<or> 244 < p0 then (RuneError, 1)
      else
        let sz = (if p0 < 224 then 2 else if p0 < 240 then 3 else 4 :: nat);
            lo = (if p0 = 224 then 160 else if p0 = 240 then 144 else locb);
            hi = (if p0 = 237 then 159 else if p0 = 244 then 143 else hicb)
        in case ps of
             [] \<Rightarrow> (RuneError, 1)
           | b1 # ps1 \<Rightarrow>
               if Suc (length ps) < sz then (RuneError, 1)
               else if b1 < lo \<or> hi < b1 then (RuneError, 1)
               else if sz \<le> 2 then ((p0 mod 32) * 64 + b1 mod 64, 2)
               else (case ps1 of
                       [] \<Rightarrow> (RuneError, 1)
                     | b2 # ps2 \<Rightarrow>
                         if b2 < locb \<or> hicb < b2 then (RuneError, 1)
                         else if sz \<le> 3
                         then ((p0 mod 16) * 4096 + (b1 mod 64) * 64 + b2 mod 64, 3)
                         else (case ps2 of
                                 [] \<Rightarrow> (RuneError, 1)
                               | b3 # ps3 \<Rightarrow>
                                   if b3 < locb \<or> hicb < b3 then (RuneError, 1)
                                   else ((p0 mod 8) * 262144 + (b1 mod 64) * 4096
                                           + (b2 mod 64) * 64 + b3 mod 64, 4))))"

definition byte :: "char \<Rightarrow> nat" where
  "byte c = of_char c"

definition DecodeRune :: "string \<Rightarrow> nat \<times> nat" where
  "DecodeRune s = decode (map byte (take 4 s))"

text \<open>
  \<^verbatim>\<open>utf8.DecodeLastRune\<close>: looks back at most four bytes for the start of the last rune
  and decodes from there; the rune counts only if it ends where the string ends.
\<close>

definition RuneStart :: "nat \<Rightarrow> bool" where
  "RuneStart b = (b div 64 \<noteq> 2)"

definition DecodeLastRune :: "string \<Rightarrow> nat \<times> nat" where
  "DecodeLastRune s =
     (let e = int (length s) in
      if e = 0 then (RuneError, 0)
      else if byte (s ! nat (e - 1)) < RuneSelf then (byte (s ! nat (e - 1)), 1)
      else
        let lim = max 0 (e - 4);
            start = (case find (\<lambda>k. RuneStart (byte (s ! nat k)))
                            [k \<leftarrow> [e - 2, e - 3, e - 4]. lim \<le> k] of
                       Some k \<Rightarrow> k
                     | None \<Rightarrow> max 0 (lim - 1));
            (r, size) = DecodeRune (drop (nat start) s)
        in if start + int size \<noteq> e then (RuneError, 1) else (r, size))"

text \<open>\<^verbatim>\<open>unicode.IsSpace\<close>: the code points with the White_Space property.\<close>

definition IsSpace :: "nat \<Rightarrow> bool" where
  "IsSpace r =
     (r = 9 \<or> r = 10 \<or> r = 11 \<or> r = 12 \<or> r = 13 \<or> r = 32 \<or> r = 133 \<or> r = 160
      \<or> r = 5760 \<or> (8192 \<le> r \<and> r \<le> 8202) \<or> r = 8232 \<or> r = 8233 \<or> r = 8239
      \<or> r = 8287 \<or> r = 12288)"

text \<open>
  \<^verbatim>\<open>strings.TrimSpace\<close>: white-space runes are removed from the front, decoding
  forwards, and from the back, decoding backwards.
\<close>

function TrimLeft :: "string \<Rightarrow> string" where
  "TrimLeft s =
     (if s = [] then []
      else if IsSpace (fst (DecodeRune s)) then TrimLeft (drop (snd (DecodeRune s)) s)
      else s)"
  by pat_completeness auto
termination
proof (relation "measure length")
  show "wf (measure length)" by simp
next
  fix s :: string
  assume ne: "s \<noteq> []" and sp: "IsSpace (fst (DecodeRune s))"
  obtain c cs where s: "s = c # cs" using ne by (cases s) auto
  have "0 < snd (DecodeRune s)"
    unfolding DecodeRune_def s
    by (cases "take 3 cs")
       (auto simp: Let_def RuneSelf_def split: list.splits if_splits)
  then show "(drop (snd (DecodeRune s)) s, s) \<in> measure length"
    using ne by simp
qed

function TrimRight :: "string \<Rightarrow> string" where
  "TrimRight s =
     (if s = [] then []
      else if IsSpace (fst (DecodeLastRune s)) \<and> 0 < snd (DecodeLastRune s)
      then TrimRight (take (length s - snd (DecodeLastRune s)) s)
      else s)"
  by pat_completeness auto
termination
  by (relation "measure length") auto

definition TrimSpace :: "string \<Rightarrow> string" where
  "TrimSpace s = TrimRight (TrimLeft s)"

text \<open>
  \<^verbatim>\<open>bytes.ToValidUTF8\<close>: each run of bytes that are not part of a valid encoding becomes
  one copy of the replacement. The flag says that the previous byte was invalid.
\<close>

function ToValidUTF8_from :: "bool \<Rightarrow> string \<Rightarrow> string \<Rightarrow> string" where
  "ToValidUTF8_from invalid s replacement =
     (case s of
        [] \<Rightarrow> []
      | c # cs \<Rightarrow>
          if byte c < RuneSelf then c # ToValidUTF8_from False cs replacement
          else if snd (DecodeRune s) \<le> 1
          then (if invalid then [] else replacement) @ ToValidUTF8_from True cs replacement
          else take (snd (DecodeRune s)) s
                 @ ToValidUTF8_from False (drop (snd (DecodeRune s)) s) replacement)"
  by pat_completeness auto
termination
  by (relation "measure (\<lambda>(invalid, s, replacement). length s)") auto

definition ToValidUTF8 :: "string \<Rightarrow> string \<Rightarrow> string" where
  "ToValidUTF8 s replacement = ToValidUTF8_from False s replacement"

text \<open>\<^verbatim>\<open>utf8.ValidString\<close>: the string is a sequence of valid encodings.\<close>

function ValidString :: "string \<Rightarrow> bool" where
  "ValidString s =
     (case s of
        [] \<Rightarrow> True
      | c # cs \<Rightarrow>
          if byte c < RuneSelf then ValidString cs
          else if snd (DecodeRune s) \<le> 1 then False
          else ValidString (drop (snd (DecodeRune s)) s))"
  by pat_completeness auto
termination
  by (relation "measure length") auto

text \<open>
  \<^verbatim>\<open>strings.ToUpper\<close> maps the bytes of an ASCII-only string itself and hands every other
  string to \<^verbatim>\<open>strings.Map(unicode.ToUpper, s)\<close>, whose case tables are a parameter here.
\<close>

definition ascii_upper :: "char \<Rightarrow> char" where
  "ascii_upper c = (if 97 \<le> byte c \<and> byte c \<le> 122 then char_of (byte c - 32) else c)"

definition ToUpper :: "(string \<Rightarrow> string) \<Rightarrow> string \<Rightarrow> string" where
  "ToUpper unicode_upper s =
     (if list_all (\<lambda>c. byte c < RuneSelf) s then map ascii_upper s else unicode_upper s)"

fun Contains :: "string \<Rightarrow> string \<Rightarrow> bool" where
  "Contains [] substr = (substr = [])"
| "Contains (c # cs) substr = (take (length substr) (c # cs) = substr \<or> Contains cs substr)"

text \<open>\<^verbatim>\<open>strings.SplitN(s, " ", 2)\<close>: split at the first space, if there is one.\<close>

definition SplitN_space_2 :: "string \<Rightarrow> string list" where
  "SplitN_space_2 s =
     (if CHR '' '' \<in> set s
      then [takeWhile (\<lambda>c. c \<noteq> CHR '' '') s, tl (dropWhile (\<lambda>c. c \<noteq> CHR '' '') s)]
      else [s])"

subsection \<open>The parser (src/internal/logs/parser.go)\<close>

text \<open>
  What the parser takes from outside: the wall clock (one reading per entry), the result
  of \<^verbatim>\<open>time.Parse(time.RFC3339Nano, s)\<close> as an instant, and the Unicode upper-casing.
\<close>

record ParserEnv =
  time_Now :: "nat \<Rightarrow> timestamp"
  time_Parse :: "string \<Rightarrow> timestamp option"
  unicode_ToUpper :: "string \<Rightarrow> string"

definition inferLevel :: "ParserEnv \<Rightarrow> string \<Rightarrow> string" where
  "inferLevel env msg =
     (let u = ToUpper (unicode_ToUpper env) msg in
      if Contains u ''ERROR'' \<or> Contains u ''FATAL'' \<or> Contains u ''PANIC'' then ''ERROR''
      else if Contains u ''WARN'' then ''WARN''
      else if Contains u ''DEBUG'' then ''DEBUG''
      else ''INFO'')"

definition sanitizeMessage :: "string \<Rightarrow> string" where
  "sanitizeMessage msg0 =
     (let msg1 = TrimSpace msg0;
          msg2 = filter (\<lambda>c. c \<noteq> CHR 0x00) msg1;
          msg3 = TrimSpace (ToValidUTF8 msg2 ''?'')
      in if length msg3 > 4000 then take 4000 msg3 else msg3)"

definition emitEntry :: "ParserEnv \<Rightarrow> nat \<Rightarrow> string \<Rightarrow> string \<Rightarrow> string \<Rightarrow> string \<Rightarrow> LogEntry" where
  "emitEntry env k raw stream serviceID containerID =
     (let msg0 = TrimSpace raw;
          ts0 = time_Now env k;
          (ts, msg) = (case SplitN_space_2 msg0 of
                         [p0, p1] \<Rightarrow> (case time_Parse env p0 of
                                        Some t \<Rightarrow> (t, p1)
                                      | None \<Rightarrow> (ts0, msg0))
                       | _ \<Rightarrow> (ts0, msg0))
      in \<lparr>le_TS = ts, le_ServiceID = serviceID, le_ContainerID = containerID,
          le_Level = inferLevel env msg, le_Stream = stream,
          le_Message = sanitizeMessage msg\<rparr>)"

definition isMultiplexHeader :: "string \<Rightarrow> bool" where
  "isMultiplexHeader header =
     (if length header < 8 then False
      else if byte (header ! 0) \<noteq> 1 \<and> byte (header ! 0) \<noteq> 2 then False
      else byte (header ! 1) = 0 \<and> byte (header ! 2) = 0 \<and> byte (header ! 3) = 0)"

text \<open>\<^verbatim>\<open>binary.BigEndian.Uint32\<close> of the first four bytes.\<close>

definition Uint32 :: "string \<Rightarrow> nat" where
  "Uint32 b = byte (b ! 3) + byte (b ! 2) * 256 + byte (b ! 1) * 65536 + byte (b ! 0) * 16777216"

text \<open>
  \<^verbatim>\<open>bufio.Scanner\<close> with \<^verbatim>\<open>ScanLines\<close>: lines end at a newline, one trailing carriage
  return is dropped, a last line without newline counts if it is not empty. A line that
  does not fit the scanner's buffer of \<open>MaxScanTokenSize\<close> bytes stops the scan with
  \<open>ErrTooLong\<close>.
\<close>

datatype parse_error = EOF | ErrUnexpectedEOF | ErrTooLong

definition MaxScanTokenSize :: nat where
  "MaxScanTokenSize = 65536"

definition dropCR :: "string \<Rightarrow> string" where
  "dropCR d = (if d \<noteq> [] \<and> last d = CHR 0x0D then butlast d else d)"

function scanLines :: "string \<Rightarrow> string list \<times> parse_error option" where
  "scanLines d =
     (if d = [] then ([], None)
      else if length (takeWhile (\<lambda>c. c \<noteq> CHR 0x0A) d) \<ge> MaxScanTokenSize
      then ([], Some ErrTooLong)
      else (case dropWhile (\<lambda>c. c \<noteq> CHR 0x0A) d of
              [] \<Rightarrow> ([dropCR d], None)
            | nl # rest \<Rightarrow>
                (dropCR (takeWhile (\<lambda>c. c \<noteq> CHR 0x0A) d) # fst (scanLines rest),
                 snd (scanLines rest))))"
  by pat_completeness auto
termination
proof (relation "measure length", goal_cases)
  case 1
  show ?case by simp
next
  case (2 d nl rest)
  then show ?case
    using length_dropWhile_le [of "\<lambda>c. c \<noteq> CHR 0x0A" d] by simp
next
  case (3 d nl rest)
  then show ?case
    using length_dropWhile_le [of "\<lambda>c. c \<noteq> CHR 0x0A" d] by simp
qed

fun emitAll ::
  "ParserEnv \<Rightarrow> nat \<Rightarrow> string \<Rightarrow> string \<Rightarrow> string \<Rightarrow> string list \<Rightarrow> LogEntry list" where
  "emitAll env k stream serviceID containerID [] = []"
| "emitAll env k stream serviceID containerID (l # ls) =
     emitEntry env k l stream serviceID containerID
       # emitAll env (Suc k) stream serviceID containerID ls"

definition parsePlainStream ::
  "ParserEnv \<Rightarrow> string \<Rightarrow> string \<Rightarrow> nat \<Rightarrow> string \<Rightarrow> LogEntry list \<times> parse_error option" where
  "parsePlainStream env serviceID containerID k br =
     (emitAll env k ''stdout'' serviceID containerID (fst (scanLines br)), snd (scanLines br))"

text \<open>
  The reader is the list of bytes it will deliver; \<open>k\<close> counts the entries emitted so far.
  The result is the entries sent to the channel, in order, and the error returned.
\<close>

function ParseDockerStream ::
  "ParserEnv \<Rightarrow> string \<Rightarrow> string \<Rightarrow> nat \<Rightarrow> string \<Rightarrow> LogEntry list \<times> parse_error option" where
  "ParseDockerStream env serviceID containerID k br =
     (if length br < 8 then parsePlainStream env serviceID containerID k br
      else if \<not> isMultiplexHeader (take 8 br)
      then parsePlainStream env serviceID containerID k br
      else if Uint32 (drop 4 (take 8 br)) = 0
      then ParseDockerStream env serviceID containerID k (drop 8 br)
      else if length (drop 8 br) < Uint32 (drop 4 (take 8 br))
      then ([], Some (if drop 8 br = [] then EOF else ErrUnexpectedEOF))
      else
        (emitEntry env k (take (Uint32 (drop 4 (take 8 br))) (drop 8 br))
           (if byte (br ! 0) = 2 then ''stderr'' else ''stdout'') serviceID containerID
         # fst (ParseDockerStream env serviceID containerID (Suc k)
                  (drop (Uint32 (drop 4 (take 8 br))) (drop 8 br))),
         snd (ParseDockerStream env serviceID containerID (Suc k)
                (drop (Uint32 (drop 4 (take 8 br))) (drop 8 br)))))"
  by pat_completeness auto
termination
  by (relation "measure (\<lambda>(env, serviceID, containerID, k, br). length br)") auto

declare TrimLeft.simps [simp del] TrimRight.simps [simp del] ToValidUTF8_from.simps [simp del]
  ValidString.simps [simp del] scanLines.simps [simp del] ParseDockerStream.simps [simp del]

subsection \<open>Streams for the parser\<close>

text \<open>
  A multiplexed frame as the test builds it (src/internal/logs/parser_test.go): the stream
  byte, three zero bytes, the payload length as \<^verbatim>\<open>binary.BigEndian.PutUint32\<close> writes it,
  then the payload. \<open>frames\<close> is a stream of frames, each given by its stream byte and its
  payload; \<open>emitFrames\<close> is what a frame-by-frame reading of it emits.
\<close>

definition PutUint32 :: "nat \<Rightarrow> string" where
  "PutUint32 n =
     [char_of (n div 16777216), char_of (n div 65536), char_of (n div 256), char_of n]"

definition frame :: "nat \<Rightarrow> string \<Rightarrow> string" where
  "frame sid payload =
     [char_of sid, CHR 0x00, CHR 0x00, CHR 0x00] @ PutUint32 (length payload) @ payload"

fun frames :: "(nat \<times> string) list \<Rightarrow> string" where
  "frames [] = []"
| "frames ((sid, payload) # fs) = frame sid payload @ frames fs"

fun emitFrames ::
  "ParserEnv \<Rightarrow> string \<Rightarrow> string \<Rightarrow> nat \<Rightarrow> (nat \<times> string) list \<Rightarrow> LogEntry list" where
  "emitFrames env serviceID containerID k [] = []"
| "emitFrames env serviceID containerID k ((sid, payload) # fs) =
     (if payload = [] then emitFrames env serviceID containerID k fs
      else emitEntry env k payload (if sid = 2 then ''stderr'' else ''stdout'')
             serviceID containerID
           # emitFrames env serviceID containerID (Suc k) fs)"

text \<open>The number of lines of a text: its newlines, and one more for an unfinished last line.\<close>

definition count_lines :: "string \<Rightarrow> nat" where
  "count_lines d =
     length [c \<leftarrow> d. c = CHR 0x0A] + (if d \<noteq> [] \<and> last d \<noteq> CHR 0x0A then 1 else 0)"

text \<open>
  The payload of \<^verbatim>\<open>TestParseDockerStream\<close>, an environment in which the library parses its
  timestamp, and two messages of 4001 bytes for the sanitizer.
\<close>

definition hello_payload :: string where
  "hello_payload = ''2026-01-01T00:00:00Z hello world'' @ [CHR 0x0A]"

definition test_penv :: ParserEnv where
  "test_penv =
     \<lparr>time_Now = (\<lambda>k. 1771675200 * Second),
      time_Parse = (\<lambda>s. if s = ''2026-01-01T00:00:00Z'' then Some (1767225600 * Second)
                         else None),
      unicode_ToUpper = (\<lambda>s. s)\<rparr>"

definition three_frames :: "(nat \<times> string) list" where
  "three_frames = [(2, hello_payload), (1, []), (1, ''disk error'')]"

definition two_lines :: string where
  "two_lines = ''plain one'' @ [CHR 0x0A] @ ''warn two''"

definition long_accent :: string where
  "long_accent = replicate 3999 (CHR ''a'') @ [CHR 0xC3, CHR 0xA9]"

definition long_gap :: string where
  "long_gap = replicate 3999 (CHR ''a'') @ '' b''"

section \<open>Test fixtures\<close>

text \<open>
  The fixtures of the engine's tests (src/unnamed/part_002): the clock pinned to
  2026-02-21T12:00:00Z, a notifier whose every send succeeds, the migrated store, and the
  restart rule set to threshold 1, \<open>for_seconds = 0\<close>, \<open>cooldown_seconds = 0\<close>.
\<close>

definition test_now :: timestamp where
  "test_now = 1771675200 * Second"

definition test_env :: Env where
  "test_env = \<lparr>clock = (\<lambda>n. test_now), notify_Send = (\<lambda>n m. None)\<rparr>"

definition restartRule :: AlertRule where
  "restartRule = seed_rule 5 ''Container restarted'' ''container'' ''container_restarts'' ''>='' 1 0 0"

definition test_store :: Repository where
  "test_store = UpdateRuleThresholds Migrate 5 (Fin 1) 0 0 True"

text \<open>One target of the restart rule: fired once, then recovered.\<close>

definition fired_once :: Engine where
  "fired_once = evalTarget test_env 5 ''c1'' ''c1'' restartRule (Fin 1) (NewEngine test_store)"

definition fired_and_recovered :: Engine where
  "fired_and_recovered = evalTarget test_env 5 ''c1'' ''c1'' restartRule (Fin 0) fired_once"

text \<open>
  The same with the seeded rule as it is (cooldown 60 s) and a clock that advances one
  second per reading: fired, recovered, and asked to fire again within the cooldown.
\<close>

definition ticking_env :: Env where
  "ticking_env = \<lparr>clock = (\<lambda>n. test_now + int n * Second), notify_Send = (\<lambda>n m. None)\<rparr>"

definition seededRestartRule :: AlertRule where
  "seededRestartRule =
     seed_rule 5 ''Container restarted'' ''container'' ''container_restarts'' ''>='' 1 0 60"

definition cd_fired :: Engine where
  "cd_fired = evalTarget ticking_env 5 ''c1'' ''c1'' seededRestartRule (Fin 1) (NewEngine Migrate)"

definition cd_recovered :: Engine where
  "cd_recovered = evalTarget ticking_env 5 ''c1'' ''c1'' seededRestartRule (Fin 0) cd_fired"

definition cd_cooling :: Engine where
  "cd_cooling = evalTarget ticking_env 5 ''c1'' ''c1'' seededRestartRule (Fin 1) cd_recovered"






text \<open>
  The scenario of \<^verbatim>\<open>TestEvaluateContainerRestartsIgnoresHistoricalMissingContainers\<close>: two
  containers of one service, the old one missing and last seen ten minutes ago.
\<close>

definition svc_as :: "string \<Rightarrow> Service" where
  "svc_as status =
     \<lparr>s_ID = ''svc'', s_Name = ''svc'', s_Image = ''img'', s_LabelsJSON = ''{}'',
      s_Status = status\<rparr>"

definition container_as :: "string \<Rightarrow> string \<Rightarrow> timestamp \<Rightarrow> Container" where
  "container_as i status seen =
     \<lparr>c_ID = i, c_ServiceID = ''svc'', c_Name = ''svc'', c_Status = status,
      c_StartedAt = None, c_LastSeenAt = seen, c_RestartCount = 0\<rparr>"

definition old_only_store :: Repository where
  "old_only_store =
     snd (UpsertServiceAndContainer (test_now - 600 * Second) (svc_as ''missing'')
            (container_as ''container-old'' ''missing'' (test_now - 600 * Second))
            test_store)"

definition historical_store :: Repository where
  "historical_store =
     snd (UpsertServiceAndContainer test_now (svc_as ''running'')
            (container_as ''container-new'' ''running'' test_now)
            old_only_store)"

definition firing_restart_alerts :: "Repository \<Rightarrow> alerts_row list" where
  "firing_restart_alerts rp =
     [a \<leftarrow> alerts rp.
        a_status a = ''firing'' \<and>
        a_rule_id a \<in> r_ID ` set [r \<leftarrow> alert_rules rp. r_MetricKey r = ''container_restarts'']]"

text \<open>A store for the retention job: one old and one recent host metric, three old alerts.\<close>

definition host_metric_at :: "timestamp \<Rightarrow> HostMetric" where
  "host_metric_at t =
     \<lparr>hm_TS = t, hm_CPUPct = Fin 0, hm_MemUsedBytes = 0, hm_MemTotalBytes = 0,
      hm_NetRXBytes = 0, hm_NetTXBytes = 0, hm_DiskUsedBytes = 0, hm_DiskTotalBytes = 0,
      hm_Load1 = Fin 0, hm_Load5 = Fin 0, hm_Load15 = Fin 0, hm_UptimeSec = 0\<rparr>"

definition alert_at :: "int \<Rightarrow> string \<Rightarrow> timestamp \<Rightarrow> alerts_row" where
  "alert_at i status started =
     \<lparr>a_id = i, a_rule_id = 5, a_target_fingerprint = ''c1'', a_status = status,
      a_started_ts = started, a_ended_ts_nullable = None,
      a_summary = ALERT ''Container restarted'' ''c1'' (Fin 1) ''>='' (Fin 1),
      a_details = (Fin 1, ''c1'')\<rparr>"

definition retention_store :: Repository where
  "retention_store =
     Migrate\<lparr>host_metrics := [host_metric_at 10, host_metric_at 30],
             alerts := [alert_at 1 ''recovered'' 10, alert_at 2 ''firing'' 10,
                        alert_at 3 ''recovered'' 30],
             alerts_seq := 3\<rparr>"

text \<open>
  A log entry stamped 10000-01-01T00:59:59Z, which the parser makes of a line stamped
  \<^verbatim>\<open>9999-12-31T23:59:59-01:00\<close>, and the cutoff thirty days before the clock of the tests.
\<close>

definition late_log :: LogEntry where
  "late_log =
     \<lparr>le_TS = 253402304399 * Second, le_ServiceID = ''svc'', le_ContainerID = ''cid'',
      le_Level = ''INFO'', le_Stream = ''stdout'', le_Message = ''hello''\<rparr>"

definition late_store :: Repository where
  "late_store = Migrate\<lparr>logs := [late_log]\<rparr>"

definition retention_cutoff :: timestamp where
  "retention_cutoff = test_now - 30 * 86400 * Second"

section \<open>Repository: upsert and retention\<close>

lemma find_upsert_service:
  "find (\<lambda>r. sr_id r = sr_id new) xs = Some old \<Longrightarrow>
   find (\<lambda>r. sr_id r = sr_id new) (upsert_service new xs) =
     Some (old\<lparr>sr_name := sr_name new, sr_image := sr_image new,
               sr_labels_json := sr_labels_json new,
               sr_last_seen_at := sr_last_seen_at new, sr_status := sr_status new\<rparr>)"
  by (induction xs) (auto split: if_splits)

lemma find_upsert_service_other:
  "i \<noteq> sr_id new \<Longrightarrow>
   find (\<lambda>r. sr_id r = i) (upsert_service new xs) = find (\<lambda>r. sr_id r = i) xs"
  by (induction xs) auto

lemma ids_upsert_service:
  "sr_id ` set (upsert_service new xs) = insert (sr_id new) (sr_id ` set xs)"
  by (induction xs) auto

lemma find_upsert_container:
  "\<exists>row. find (\<lambda>r. c_ID r = c_ID new) (upsert_container new xs) = Some row \<and>
         c_LastSeenAt row = c_LastSeenAt new \<and> c_ServiceID row = c_ServiceID new"
  by (induction xs) auto

text \<open>
  C8. For a service row that already exists, upserting a (service, container) pair at time
  \<open>now\<close> keeps the service's \<open>first_seen_at\<close>, sets its \<open>last_seen_at\<close> to \<open>now\<close>, leaves
  every other service row as it was, and (the container naming that service as its owner)
  succeeds and leaves a container row whose \<open>last_seen_at\<close> is \<open>now\<close>.
\<close>

theorem upsert_preserves_first_seen:
  assumes "service_by_id repo (s_ID svc) = Some old"
    and "c_ServiceID c = s_ID svc"
    and "UpsertServiceAndContainer now svc c repo = (err, repo')"
  shows "err = None
       \<and> (\<exists>row. service_by_id repo' (s_ID svc) = Some row
              \<and> sr_first_seen_at row = sr_first_seen_at old
              \<and> sr_last_seen_at row = now)
       \<and> (\<exists>crow. container_by_id repo' (c_ID c) = Some crow \<and> c_LastSeenAt crow = now)
       \<and> (\<forall>i. i \<noteq> s_ID svc \<longrightarrow> service_by_id repo' i = service_by_id repo i)"
proof -
  let ?new = "\<lparr>sr_id = s_ID svc, sr_name = s_Name svc, sr_image = s_Image svc,
               sr_labels_json = s_LabelsJSON svc, sr_first_seen_at = now,
               sr_last_seen_at = now, sr_status = s_Status svc\<rparr>"
  let ?svcs = "upsert_service ?new (services repo)"
  have fk: "c_ServiceID c \<in> set (map sr_id ?svcs)"
    using assms(2) by (simp add: ids_upsert_service)
  have r': "repo' = repo\<lparr>services := ?svcs,
                containers := upsert_container (c\<lparr>c_LastSeenAt := now\<rparr>) (containers repo)\<rparr>"
    and e: "err = None"
    using assms(3) fk by (simp_all add: UpsertServiceAndContainer_def Let_def)
  have old: "find (\<lambda>r. sr_id r = sr_id ?new) (services repo) = Some old"
    using assms(1) by (simp add: service_by_id_def)
  have s: "service_by_id repo' (s_ID svc) =
      Some (old\<lparr>sr_name := sr_name ?new, sr_image := sr_image ?new,
               sr_labels_json := sr_labels_json ?new,
               sr_last_seen_at := sr_last_seen_at ?new, sr_status := sr_status ?new\<rparr>)"
    using find_upsert_service [OF old] by (simp add: service_by_id_def r')
  have c: "\<exists>crow. container_by_id repo' (c_ID c) = Some crow \<and> c_LastSeenAt crow = now"
    using find_upsert_container [of "c\<lparr>c_LastSeenAt := now\<rparr>" "containers repo"]
    by (auto simp: container_by_id_def r')
  have o: "\<forall>i. i \<noteq> s_ID svc \<longrightarrow> service_by_id repo' i = service_by_id repo i"
    using find_upsert_service_other [of _ ?new "services repo"]
    by (simp add: service_by_id_def r')
  show ?thesis using e s c o by simp
qed

theorem upsert_preserves_first_seen_witness:
  "service_by_id old_only_store (s_ID (svc_as ''running'')) =
     Some \<lparr>sr_id = ''svc'', sr_name = ''svc'', sr_image = ''img'', sr_labels_json = ''{}'',
           sr_first_seen_at = test_now - 600 * Second,
           sr_last_seen_at = test_now - 600 * Second, sr_status = ''missing''\<rparr>
   \<and> c_ServiceID (container_as ''container-new'' ''running'' test_now) = s_ID (svc_as ''running'')
   \<and> (\<exists>row. service_by_id historical_store ''svc'' = Some row
          \<and> sr_first_seen_at row = test_now - 600 * Second
          \<and> sr_last_seen_at row = test_now)
   \<and> (\<exists>crow. container_by_id historical_store ''container-new'' = Some crow
          \<and> c_LastSeenAt crow = test_now)"
proof -
  let ?old = "\<lparr>sr_id = ''svc'', sr_name = ''svc'', sr_image = ''img'', sr_labels_json = ''{}'',
           sr_first_seen_at = test_now - 600 * Second,
           sr_last_seen_at = test_now - 600 * Second, sr_status = ''missing''\<rparr>"
  let ?c = "container_as ''container-new'' ''running'' test_now"
  have h1: "service_by_id old_only_store (s_ID (svc_as ''running'')) = Some ?old"
    by code_simp
  have h2: "c_ServiceID ?c = s_ID (svc_as ''running'')"
    by (simp add: container_as_def svc_as_def)
  have h3: "UpsertServiceAndContainer test_now (svc_as ''running'') ?c old_only_store =
              (fst (UpsertServiceAndContainer test_now (svc_as ''running'') ?c old_only_store),
               historical_store)"
    by (simp add: historical_store_def)
  note t = upsert_preserves_first_seen [OF h1 h2 h3]
  have i1: "s_ID (svc_as ''running'') = ''svc''" by (simp add: svc_as_def)
  have i2: "c_ID ?c = ''container-new''" by (simp add: container_as_def)
  show ?thesis using h1 h2 t by (simp add: i1 i2)
qed

section \<open>Alert engine: cooldown and recovery\<close>

lemma f64_lt_NaN_right: "\<not> f64_lt t NaN"
  by (cases t) simp_all

lemma compare_NaN: "\<not> compare NaN op t"
  by (simp add: compare_def f64_lt_NaN_right)

lemma find_upsert_state:
  "find (\<lambda>r. as_rule_id r = as_rule_id new \<and> as_target_fingerprint r = as_target_fingerprint new)
        (upsert_state new xs) = Some new"
  by (induction xs) auto

lemma GetAlertState_Upsert:
  "ruleID \<in> r_ID ` set (alert_rules repo) \<Longrightarrow>
   GetAlertState (snd (UpsertAlertState repo ruleID tk st since lf lr)) ruleID tk =
     Inr \<lparr>as_rule_id = ruleID, as_target_fingerprint = tk, as_state = st,
          as_since_ts = scan_time since, as_last_fired_ts = map_option scan_time lf,
          as_last_recovered_ts = map_option scan_time lr\<rparr>"
  using find_upsert_state [of "\<lparr>as_rule_id = ruleID, as_target_fingerprint = tk, as_state = st,
          as_since_ts = since, as_last_fired_ts = lf, as_last_recovered_ts = lr\<rparr>" "alert_states repo"]
  by (simp add: GetAlertState_def UpsertAlertState_def)

lemma four_digit_zeroTime: "four_digit_year zeroTime"
  by (simp add: four_digit_year_def zeroTime_def year0_def year10000_def Second_def)


lemma scan_time_idem: "scan_time (scan_time t) = scan_time t"
  by (simp add: scan_time_def four_digit_zeroTime)

text \<open>The times of a row that was read are times the store can hold and return.\<close>

lemma GetAlertState_scanned:
  assumes "GetAlertState repo ruleID tk = Inr row"
  shows "scan_time (as_since_ts row) = as_since_ts row"
    and "as_last_fired_ts row = Some lf \<Longrightarrow> scan_time lf = lf"
    and "map_option scan_time (as_last_fired_ts row) = as_last_fired_ts row"
proof -
  obtain raw where row: "row = raw\<lparr>as_since_ts := scan_time (as_since_ts raw),
                   as_last_fired_ts := map_option scan_time (as_last_fired_ts raw),
                   as_last_recovered_ts := map_option scan_time (as_last_recovered_ts raw)\<rparr>"
    using assms by (auto simp add: GetAlertState_def split: option.splits)
  show "scan_time (as_since_ts row) = as_since_ts row" by (simp add: row scan_time_idem)
  show m: "map_option scan_time (as_last_fired_ts row) = as_last_fired_ts row"
    by (cases "as_last_fired_ts raw") (simp_all add: row scan_time_idem)
  show "scan_time lf = lf" if "as_last_fired_ts row = Some lf" using m that by simp
qed

lemma UpsertAlertState_frame:
  "alerts (snd (UpsertAlertState repo ruleID tk st since lf lr)) = alerts repo"
  "notification_events (snd (UpsertAlertState repo ruleID tk st since lf lr)) = notification_events repo"
  "alert_rules (snd (UpsertAlertState repo ruleID tk st since lf lr)) = alert_rules repo"
  by (simp_all add: UpsertAlertState_def)

lemma sendNotification_loop_orphan:
  "alertID \<notin> a_id ` set (alerts (e_repo e)) \<Longrightarrow>
   e_repo (sendNotification_loop env alertID msg n err e) = e_repo e"
proof (induction env alertID msg n err e rule: sendNotification_loop.induct)
  case (1 env alertID msg attempts err e)
  show ?case
  proof (cases "attempts < 3")
    case True
    show ?thesis
    proof (cases "notify_Send env (length (e_sent e)) msg")
      case None
      then show ?thesis using True "1.prems"
        by (simp add: sendNotification_loop.simps [of env alertID msg attempts err e]
              InsertNotificationEvent_def)
    next
      case (Some err')
      then show ?thesis using True "1.prems" "1.IH" [OF True Some]
        by (simp add: sendNotification_loop.simps [of env alertID msg attempts err e])
    qed
  next
    case False
    then show ?thesis using "1.prems"
      by (simp add: sendNotification_loop.simps [of env alertID msg attempts err e]
            InsertNotificationEvent_def)
  qed
qed

lemma close_keeps_ids:
  "map a_id (map (\<lambda>a. if P a then a\<lparr>a_status := s, a_ended_ts_nullable := x\<rparr> else a) xs) =
   map a_id xs"
  by (induction xs) auto

lemma CloseAlert_ids:
  "a_id ` set (alerts (snd (CloseAlert repo ruleID tk ended))) = a_id ` set (alerts repo)"
proof -
  have "alerts (snd (CloseAlert repo ruleID tk ended)) =
          map (\<lambda>a. if a_rule_id a = ruleID \<and> a_target_fingerprint a = tk
                       \<and> a_status a = ''firing''
                    then a\<lparr>a_status := ''recovered'', a_ended_ts_nullable := Some ended\<rparr>
                    else a) (alerts repo)"
    by (simp add: CloseAlert_def)
  then have "map a_id (alerts (snd (CloseAlert repo ruleID tk ended))) = map a_id (alerts repo)"
    by (simp only: close_keeps_ids)
  then have "set (map a_id (alerts (snd (CloseAlert repo ruleID tk ended)))) =
             set (map a_id (alerts repo))"
    by simp
  then show ?thesis by (simp only: set_map)
qed


lemma sendNotification_loop_effect:
  assumes "alertID \<in> a_id ` set (alerts (e_repo e))"
  shows "\<exists>k ev. k \<le> 3 - n \<and> (n < 3 \<longrightarrow> 0 < k)
           \<and> ne_alert_id ev = alertID
           \<and> e_sent (sendNotification_loop env alertID msg n err e) = e_sent e @ replicate k msg
           \<and> notification_events (e_repo (sendNotification_loop env alertID msg n err e)) =
               notification_events (e_repo e) @ [ev]
           \<and> alerts (e_repo (sendNotification_loop env alertID msg n err e)) = alerts (e_repo e)
           \<and> alert_states (e_repo (sendNotification_loop env alertID msg n err e)) =
               alert_states (e_repo e)
           \<and> alert_rules (e_repo (sendNotification_loop env alertID msg n err e)) =
               alert_rules (e_repo e)
           \<and> alerts_seq (e_repo (sendNotification_loop env alertID msg n err e)) =
               alerts_seq (e_repo e)"
  using assms
proof (induction env alertID msg n err e rule: sendNotification_loop.induct)
  case (1 env alertID msg attempts err e)
  show ?case
  proof (cases "attempts < 3")
    case False
    then show ?thesis using "1.prems"
      by (simp add: sendNotification_loop.simps [of env alertID msg attempts err e]
            InsertNotificationEvent_def)
  next
    case True
    show ?thesis
    proof (cases "notify_Send env (length (e_sent e)) msg")
      case None
      have "e_sent e @ [msg] = e_sent e @ replicate 1 msg" by simp
      then show ?thesis using True None "1.prems"
        apply (simp add: sendNotification_loop.simps [of env alertID msg attempts err e]
              InsertNotificationEvent_def)
        apply (rule exI [of _ 1])
        apply simp
        done
    next
      case (Some err')
      let ?e1 = "e\<lparr>e_sent := e_sent e @ [msg]\<rparr>"
      have p: "alertID \<in> a_id ` set (alerts (e_repo ?e1))" using "1.prems" by simp
      from "1.IH" [OF True Some p]
      obtain k ev where k: "k \<le> 3 - (attempts + 1)"
        and ev: "ne_alert_id ev = alertID"
        and s: "e_sent (sendNotification_loop env alertID msg (attempts + 1) err' ?e1) =
                  e_sent ?e1 @ replicate k msg"
        and r: "notification_events
                  (e_repo (sendNotification_loop env alertID msg (attempts + 1) err' ?e1)) =
                notification_events (e_repo ?e1) @ [ev]"
          "alerts (e_repo (sendNotification_loop env alertID msg (attempts + 1) err' ?e1)) =
             alerts (e_repo ?e1)"
          "alert_states (e_repo (sendNotification_loop env alertID msg (attempts + 1) err' ?e1)) =
             alert_states (e_repo ?e1)"
          "alert_rules (e_repo (sendNotification_loop env alertID msg (attempts + 1) err' ?e1)) =
             alert_rules (e_repo ?e1)"
          "alerts_seq (e_repo (sendNotification_loop env alertID msg (attempts + 1) err' ?e1)) =
             alerts_seq (e_repo ?e1)"
        by blast
      have eq: "sendNotification_loop env alertID msg attempts err e =
                sendNotification_loop env alertID msg (attempts + 1) err' ?e1"
        using True Some by (simp add: sendNotification_loop.simps [of env alertID msg attempts err e])
      have s': "e_sent (sendNotification_loop env alertID msg attempts err e) =
                  e_sent e @ replicate (Suc k) msg"
        using s by (simp add: eq replicate_append_same)
      show ?thesis
        apply (rule exI [of _ "Suc k"])
        apply (rule exI [of _ ev])
        using k ev s' r True by (simp add: eq)
    qed
  qed
qed

lemma sendNotification_loop_sent:
  "\<exists>k. k \<le> 3 - n \<and> (n < 3 \<longrightarrow> 0 < k)
        \<and> e_sent (sendNotification_loop env alertID msg n err e) = e_sent e @ replicate k msg"
proof (induction env alertID msg n err e rule: sendNotification_loop.induct)
  case (1 env alertID msg attempts err e)
  show ?case
  proof (cases "attempts < 3")
    case False
    then show ?thesis
      by (simp add: sendNotification_loop.simps [of env alertID msg attempts err e])
  next
    case True
    show ?thesis
    proof (cases "notify_Send env (length (e_sent e)) msg")
      case None
      have "e_sent (sendNotification_loop env alertID msg attempts err e) =
              e_sent e @ replicate 1 msg"
        using True None
        by (simp add: sendNotification_loop.simps [of env alertID msg attempts err e])
      then show ?thesis using True by (intro exI [of _ 1]) simp
    next
      case (Some err')
      let ?e1 = "e\<lparr>e_sent := e_sent e @ [msg]\<rparr>"
      from "1.IH" [OF True Some]
      obtain k where k: "k \<le> 3 - (attempts + 1)"
        and s: "e_sent (sendNotification_loop env alertID msg (attempts + 1) err' ?e1) =
                  e_sent ?e1 @ replicate k msg"
        by blast
      have eq: "sendNotification_loop env alertID msg attempts err e =
                sendNotification_loop env alertID msg (attempts + 1) err' ?e1"
        using True Some by (simp add: sendNotification_loop.simps [of env alertID msg attempts err e])
      have s': "e_sent (sendNotification_loop env alertID msg attempts err e) =
                  e_sent e @ replicate (Suc k) msg"
        using s by (simp add: eq replicate_append_same)
      show ?thesis using k s' True by (intro exI [of _ "Suc k"]) simp
    qed
  qed
qed

text \<open>
  The first evaluation of a pair without stored state, with \<open>for_seconds \<le> 0\<close> and the
  comparison holding: one alert row with status firing is appended, one notification event
  for it is recorded, its text is handed to the notifier between one and three times, and
  the stored state is FIRING since \<open>now\<close>.
\<close>

lemma first_evaluation_fires:
  assumes fk: "ruleID \<in> r_ID ` set (alert_rules (e_repo e))"
    and fresh: "GetAlertState (e_repo e) ruleID tk = Inl ErrNoRows"
    and for0: "r_ForSeconds rule \<le> 0"
    and fire: "compare v (r_Operator rule) (r_Threshold rule)"
  shows "\<exists>k ev. 0 < k \<and> k \<le> 3
       \<and> ne_alert_id ev = alerts_seq (e_repo e) + 1
       \<and> alerts (e_repo (evalTarget env ruleID tk lbl rule v e)) =
           alerts (e_repo e) @
             [\<lparr>a_id = alerts_seq (e_repo e) + 1, a_rule_id = ruleID, a_target_fingerprint = tk,
               a_status = ''firing'', a_started_ts = clock env (e_now_calls e),
               a_ended_ts_nullable = None,
               a_summary = ALERT (r_Name rule) lbl v (r_Operator rule) (r_Threshold rule),
               a_details = (v, lbl)\<rparr>]
       \<and> GetAlertState (e_repo (evalTarget env ruleID tk lbl rule v e)) ruleID tk =
           Inr \<lparr>as_rule_id = ruleID, as_target_fingerprint = tk, as_state = ''FIRING'',
                as_since_ts = scan_time (clock env (e_now_calls e)),
                as_last_fired_ts = Some (scan_time (clock env (e_now_calls e))),
                as_last_recovered_ts = None\<rparr>
       \<and> notification_events (e_repo (evalTarget env ruleID tk lbl rule v e)) =
           notification_events (e_repo e) @ [ev]
       \<and> e_sent (evalTarget env ruleID tk lbl rule v e) =
           e_sent e @ replicate k (ALERT (r_Name rule) lbl v (r_Operator rule) (r_Threshold rule))"
proof -
  let ?now = "clock env (e_now_calls e)"
  let ?msg = "ALERT (r_Name rule) lbl v (r_Operator rule) (r_Threshold rule)"
  let ?row = "\<lparr>a_id = alerts_seq (e_repo e) + 1, a_rule_id = ruleID, a_target_fingerprint = tk,
               a_status = ''firing'', a_started_ts = ?now, a_ended_ts_nullable = None,
               a_summary = ?msg, a_details = (v, lbl)\<rparr>"
  let ?repo1 = "(e_repo e)\<lparr>alerts := alerts (e_repo e) @ [?row],
                           alerts_seq := alerts_seq (e_repo e) + 1\<rparr>"
  let ?e1 = "e\<lparr>e_now_calls := e_now_calls e + 1, e_repo := ?repo1\<rparr>"
  define e2 where "e2 = sendNotification env (alerts_seq (e_repo e) + 1) ?msg ?e1"
  have nn: "v \<noteq> NaN" using fire compare_NaN by auto
  have ev: "evalTarget env ruleID tk lbl rule v e =
      e2\<lparr>e_repo := snd (UpsertAlertState (e_repo e2) ruleID tk ''FIRING'' ?now (Some ?now) None)\<rparr>"
    using nn fire fresh for0 fk unfolding e2_def
    by (simp add: evalTarget_def Let_def in_cooldown_def fire_def CreateAlert_def)
  have parent: "alerts_seq (e_repo e) + 1 \<in> a_id ` set (alerts (e_repo ?e1))"
    by (simp add: image_iff)
  from sendNotification_loop_effect [OF parent, of 0 env ?msg "[]"]
  obtain k ev' where k: "k \<le> 3" "0 < k"
    and id: "ne_alert_id ev' = alerts_seq (e_repo e) + 1"
    and s: "e_sent e2 = e_sent ?e1 @ replicate k ?msg"
    and n: "notification_events (e_repo e2) = notification_events (e_repo ?e1) @ [ev']"
    and a: "alerts (e_repo e2) = alerts (e_repo ?e1)"
    and r: "alert_rules (e_repo e2) = alert_rules (e_repo ?e1)"
    unfolding sendNotification_def e2_def by auto
  have fk2: "ruleID \<in> r_ID ` set (alert_rules (e_repo e2))" using fk r by simp
  show ?thesis
    apply (rule exI [of _ k])
    apply (rule exI [of _ ev'])
    using k id s n a
    by (simp add: ev GetAlertState_Upsert [OF fk2] UpsertAlertState_frame)
qed

text \<open>
  The evaluation after it, in which the comparison does not hold: the firing rows of the
  pair become recovered with \<open>ended_ts = now\<close>, the stored state is OK, the RECOVERY text
  is handed to the notifier between one and three times, and the notification events are
  what they were.
\<close>

lemma recovery_closes_alert:
  assumes row: "GetAlertState (e_repo e) ruleID tk = Inr row"
    and firing: "as_state row = ''FIRING''"
    and fk: "ruleID \<in> r_ID ` set (alert_rules (e_repo e))"
    and nn: "v \<noteq> NaN"
    and calm: "\<not> compare v (r_Operator rule) (r_Threshold rule)"
    and ids: "0 \<notin> a_id ` set (alerts (e_repo e))"
  shows "\<exists>k. 0 < k \<and> k \<le> 3
       \<and> alerts (e_repo (evalTarget env ruleID tk lbl rule v e)) =
           alerts (snd (CloseAlert (e_repo e) ruleID tk (clock env (e_now_calls e))))
       \<and> GetAlertState (e_repo (evalTarget env ruleID tk lbl rule v e)) ruleID tk =
           Inr \<lparr>as_rule_id = ruleID, as_target_fingerprint = tk, as_state = ''OK'',
                as_since_ts = scan_time (clock env (e_now_calls e)),
                as_last_fired_ts = as_last_fired_ts row,
                as_last_recovered_ts = Some (scan_time (clock env (e_now_calls e)))\<rparr>
       \<and> notification_events (e_repo (evalTarget env ruleID tk lbl rule v e)) =
           notification_events (e_repo e)
       \<and> e_sent (evalTarget env ruleID tk lbl rule v e) =
           e_sent e @ replicate k (RECOVERY (r_Name rule) lbl v)"
proof -
  let ?now = "clock env (e_now_calls e)"
  let ?msg = "RECOVERY (r_Name rule) lbl v"
  let ?e1 = "e\<lparr>e_now_calls := e_now_calls e + 1,
               e_repo := snd (CloseAlert (e_repo e) ruleID tk ?now)\<rparr>"
  define e2 where "e2 = sendNotification env 0 ?msg ?e1"
  have ev: "evalTarget env ruleID tk lbl rule v e =
      e2\<lparr>e_repo := snd (UpsertAlertState (e_repo e2) ruleID tk ''OK'' ?now
                             (as_last_fired_ts row) (Some ?now))\<rparr>"
    using row firing nn calm unfolding e2_def by (simp add: evalTarget_def Let_def)
  have "a_id ` set (alerts (e_repo ?e1)) = a_id ` set (alerts (e_repo e))"
    using CloseAlert_ids [of "e_repo e" ruleID tk ?now] by simp
  then have orphan: "0 \<notin> a_id ` set (alerts (e_repo ?e1))" using ids by simp
  have same: "e_repo e2 = e_repo ?e1"
    unfolding sendNotification_def e2_def using orphan by (rule sendNotification_loop_orphan)
  from sendNotification_loop_sent [of 0 env 0 ?msg "[]" ?e1]
  obtain k where k: "k \<le> 3" "0 < k" and s: "e_sent e2 = e_sent ?e1 @ replicate k ?msg"
    unfolding sendNotification_def e2_def by auto
  have fk2: "ruleID \<in> r_ID ` set (alert_rules (e_repo e2))"
    using fk by (simp add: same CloseAlert_def)
  have st: "GetAlertState (e_repo (evalTarget env ruleID tk lbl rule v e)) ruleID tk =
           Inr \<lparr>as_rule_id = ruleID, as_target_fingerprint = tk, as_state = ''OK'',
                as_since_ts = scan_time ?now, as_last_fired_ts = as_last_fired_ts row,
                as_last_recovered_ts = Some (scan_time ?now)\<rparr>"
    by (simp add: ev GetAlertState_Upsert [OF fk2] GetAlertState_scanned(3) [OF row])
  have al: "alerts (e_repo (evalTarget env ruleID tk lbl rule v e)) =
           alerts (snd (CloseAlert (e_repo e) ruleID tk ?now))"
    by (simp add: ev UpsertAlertState_frame same)
  have ne: "notification_events (e_repo (evalTarget env ruleID tk lbl rule v e)) =
           notification_events (e_repo e)"
    by (simp add: ev UpsertAlertState_frame same CloseAlert_def)
  have se: "e_sent (evalTarget env ruleID tk lbl rule v e) = e_sent e @ replicate k ?msg"
    using s by (simp add: ev)
  show ?thesis using k st al ne se by blast
qed


text \<open>
  C10. A pair whose stored state is COOLDOWN: an evaluation in which the comparison holds
  changes nothing (no state update, no alert, no notification; only a clock reading was
  taken), whatever the clock says. After any evaluation the stored state is COOLDOWN or
  OK, and it is OK exactly when the value is a number and the comparison does not hold;
  that transition sends nothing and creates no alert row.
\<close>

theorem cooldown_is_sticky:
  assumes row: "GetAlertState (e_repo e) ruleID tk = Inr row"
    and cd: "as_state row = ''COOLDOWN''"
    and fk: "ruleID \<in> r_ID ` set (alert_rules (e_repo e))"
  shows "(compare v (r_Operator rule) (r_Threshold rule) \<longrightarrow>
            evalTarget env ruleID tk lbl rule v e = e\<lparr>e_now_calls := e_now_calls e + 1\<rparr>)
       \<and> (\<exists>row'. GetAlertState (e_repo (evalTarget env ruleID tk lbl rule v e)) ruleID tk = Inr row'
              \<and> (as_state row' = ''COOLDOWN'' \<or> as_state row' = ''OK'')
              \<and> (as_state row' = ''OK'' \<longleftrightarrow>
                    v \<noteq> NaN \<and> \<not> compare v (r_Operator rule) (r_Threshold rule)))
       \<and> e_sent (evalTarget env ruleID tk lbl rule v e) = e_sent e
       \<and> length (alerts (e_repo (evalTarget env ruleID tk lbl rule v e))) =
           length (alerts (e_repo e))
       \<and> notification_events (e_repo (evalTarget env ruleID tk lbl rule v e)) =
           notification_events (e_repo e)"
proof (cases "v = NaN")
  case True
  then show ?thesis using row cd by (simp add: evalTarget_def compare_NaN)
next
  case nn: False
  show ?thesis
  proof (cases "compare v (r_Operator rule) (r_Threshold rule)")
    case True
    then show ?thesis using nn row cd by (simp add: evalTarget_def)
  next
    case False
    then show ?thesis using nn row cd fk
      by (simp add: evalTarget_def Let_def GetAlertState_Upsert UpsertAlertState_frame
            CloseAlert_def)
  qed
qed

theorem cooldown_is_sticky_witness:
  "GetAlertState (e_repo cd_cooling) 5 ''c1'' =
     Inr \<lparr>as_rule_id = 5, as_target_fingerprint = ''c1'', as_state = ''COOLDOWN'',
          as_since_ts = test_now + 4 * Second, as_last_fired_ts = Some test_now,
          as_last_recovered_ts = None\<rparr>
   \<and> 5 \<in> r_ID ` set (alert_rules (e_repo cd_cooling))
   \<and> compare (Fin 1) (r_Operator seededRestartRule) (r_Threshold seededRestartRule)
   \<and> evalTarget ticking_env 5 ''c1'' ''c1'' seededRestartRule (Fin 1) cd_cooling =
       cd_cooling\<lparr>e_now_calls := e_now_calls cd_cooling + 1\<rparr>
   \<and> (\<exists>row'. GetAlertState
                (e_repo (evalTarget ticking_env 5 ''c1'' ''c1'' seededRestartRule (Fin 0) cd_cooling))
                5 ''c1'' = Inr row' \<and> as_state row' = ''OK'')"
proof -
  let ?row = "\<lparr>as_rule_id = 5, as_target_fingerprint = ''c1'', as_state = ''COOLDOWN'',
          as_since_ts = test_now + 4 * Second, as_last_fired_ts = Some test_now,
          as_last_recovered_ts = None\<rparr>"
  have h1: "GetAlertState (e_repo cd_cooling) 5 ''c1'' = Inr ?row" by code_simp
  have h2: "as_state ?row = ''COOLDOWN''" by simp
  have h3: "5 \<in> r_ID ` set (alert_rules (e_repo cd_cooling))" by code_simp
  have h4: "compare (Fin 1) (r_Operator seededRestartRule) (r_Threshold seededRestartRule)"
    by code_simp
  have h5: "\<not> compare (Fin 0) (r_Operator seededRestartRule) (r_Threshold seededRestartRule)"
    by code_simp
  note a = cooldown_is_sticky [OF h1 h2 h3, of "Fin 1" seededRestartRule ticking_env "''c1''"]
  note b = cooldown_is_sticky [OF h1 h2 h3, of "Fin 0" seededRestartRule ticking_env "''c1''"]
  show ?thesis using h1 h3 h4 h5 a b by auto
qed





















text \<open>
  C1. With \<open>for_seconds = 0\<close> and \<open>cooldown_seconds = 0\<close> and no prior state, one
  evaluation in which the comparison holds creates one alert row with status firing and
  stores FIRING; the next evaluation, in which it does not hold, sets that row to
  recovered with \<open>ended_ts\<close>, stores OK and hands the RECOVERY text to the notifier. That
  notification goes out with alert id 0 (\<^verbatim>\<open>e.sendNotification(ctx, 0, rmsg)\<close>): no alert row
  has id 0, the insert into \<open>notification_events\<close> breaks the foreign key on \<open>alert_id\<close>,
  and the only notification event in the store afterwards is the one of the alert. Here on
  the fixture of the tests; \<open>first_evaluation_fires\<close> and \<open>recovery_closes_alert\<close> say the
  same of every store and every outcome of the sends.
\<close>

theorem recovery_notification_not_recorded:
  "map (\<lambda>a. (a_id a, a_rule_id a, a_target_fingerprint a, a_status a, a_ended_ts_nullable a))
       (alerts (e_repo fired_once)) = [(1, 5, ''c1'', ''firing'', None)]
   \<and> map (\<lambda>s. (as_rule_id s, as_target_fingerprint s, as_state s))
       (alert_states (e_repo fired_once)) = [(5, ''c1'', ''FIRING'')]
   \<and> map (\<lambda>a. (a_id a, a_rule_id a, a_target_fingerprint a, a_status a, a_ended_ts_nullable a))
       (alerts (e_repo fired_and_recovered)) = [(1, 5, ''c1'', ''recovered'', Some test_now)]
   \<and> map (\<lambda>s. (as_rule_id s, as_target_fingerprint s, as_state s))
       (alert_states (e_repo fired_and_recovered)) = [(5, ''c1'', ''OK'')]
   \<and> e_sent fired_and_recovered =
       [ALERT ''Container restarted'' ''c1'' (Fin 1) ''>='' (Fin 1),
        RECOVERY ''Container restarted'' ''c1'' (Fin 0)]
   \<and> map (\<lambda>n. (ne_alert_id n, ne_status n)) (notification_events (e_repo fired_and_recovered))
       = [(1, ''sent'')]
   \<and> notification_events (e_repo fired_and_recovered) = notification_events (e_repo fired_once)"
  by code_simp

text \<open>
  C3. The scenario of the test: an old container (missing, last seen ten minutes ago) and
  a new one (running) of the same service, restart count 0 both, a fresh engine, two
  evaluations. The first evaluation already fires for the new container, the second for
  the old one: two firing alerts of the restart rule, where the test expects none.
\<close>

theorem historical_missing_fires:
  "map (\<lambda>a. (a_rule_id a, a_target_fingerprint a, a_status a))
       (firing_restart_alerts (e_repo (Evaluate test_env (NewEngine historical_store))))
     = [(5, ''container-new'', ''firing'')]
   \<and> map (\<lambda>a. (a_rule_id a, a_target_fingerprint a, a_status a))
       (firing_restart_alerts
          (e_repo (Evaluate test_env (Evaluate test_env (NewEngine historical_store)))))
     = [(5, ''container-new'', ''firing''), (5, ''container-old'', ''firing'')]"
  by code_simp

section \<open>Retention\<close>

lemma count_list_filter:
  "count_list (filter P xs) x = (if P x then count_list xs x else 0)"
  by (induction xs) auto

subsection \<open>The order of the stored timestamps\<close>

text \<open>
  The stored text of an instant with a four-digit year has fixed-width fields from the
  year down to the second, then the trimmed fraction: its order is the order of the
  instants.
\<close>

lemma text_lt_irrefl: "\<not> text_lt a a"
  by (induction a) auto

lemma text_lt_asym: "text_lt a b \<Longrightarrow> \<not> text_lt b a"
  by (induction a b rule: text_lt.induct) auto

lemma text_lt_prefix: "text_lt (p @ x) (p @ y) = text_lt x y"
  by (induction p) auto

lemma text_lt_append:
  "length a = length b \<Longrightarrow> text_lt a b \<Longrightarrow> text_lt (a @ x) (b @ y)"
  by (induction a b rule: list_induct2) auto

lemma of_char_utod: "0 \<le> d \<Longrightarrow> d < 10 \<Longrightarrow> (of_char (utod d) :: int) = 48 + d"
  by (simp add: utod_def)

lemma length_fixed: "length (fixed k u) = k"
  by (induction k arbitrary: u) auto

lemma fixed_lt:
  "0 \<le> a \<Longrightarrow> a < b \<Longrightarrow> b < 10 ^ k \<Longrightarrow> text_lt (fixed k a @ x) (fixed k b @ y)"
proof (induction k arbitrary: a b x y)
  case 0
  then show ?case by simp
next
  case (Suc k)
  have le: "a div 10 \<le> b div 10" using Suc.prems by (simp add: zdiv_mono1)
  show ?case
  proof (cases "a div 10 < b div 10")
    case True
    have "b div 10 < 10 ^ k" using Suc.prems by (simp add: div_less_iff_less_mult mult.commute)
    moreover have "0 \<le> a div 10" using Suc.prems by simp
    ultimately show ?thesis using Suc.IH [OF _ True] by simp
  next
    case False
    then have eq: "a div 10 = b div 10" using le by simp
    have "a mod 10 < b mod 10"
      using Suc.prems(2) eq by (metis mult_div_mod_eq add_less_cancel_left)
    moreover have "0 \<le> a mod 10" "b mod 10 < 10" by simp_all
    ultimately have "(of_char (utod (a mod 10)) :: int) < of_char (utod (b mod 10))"
      by (simp add: of_char_utod)
    then show ?thesis by (simp add: eq text_lt_prefix)
  qed
qed

lemma appendInt_2: "0 \<le> x \<Longrightarrow> x < 100 \<Longrightarrow> appendInt x 2 = fixed 2 x"
proof -
  assume a: "0 \<le> x" "x < 100"
  have "x div 10 < 10" using a by simp
  then have "x div 10 mod 10 = x div 10" using a by simp
  then show ?thesis using a by (simp add: appendInt_def numeral_2_eq_2)
qed

lemma appendInt_4: "0 \<le> x \<Longrightarrow> x < 10000 \<Longrightarrow> appendInt x 4 = fixed 4 x"
proof -
  assume a: "0 \<le> x" "x < 10000"
  have d2: "x div 10 div 10 = x div 100" by (simp add: zdiv_zmult2_eq [symmetric])
  have d3: "x div 100 div 10 = x div 1000" by (simp add: zdiv_zmult2_eq [symmetric])
  have "x div 1000 < 10" using a by simp
  then have m: "x div 1000 mod 10 = x div 1000" using a by simp
  have four: "(4::nat) = Suc (Suc (Suc (Suc 0)))" by simp
  show ?thesis using a by (simp add: appendInt_def four d2 d3 m)
qed


lemma decimal_fixed:
  "0 \<le> u \<Longrightarrow> u < 10 ^ Suc k \<Longrightarrow>
   length (decimal u) \<le> Suc k
   \<and> replicate (Suc k - length (decimal u)) (CHR ''0'') @ decimal u = fixed (Suc k) u"
proof (induction k arbitrary: u)
  case 0
  then have "u < 10" by simp
  then show ?case using 0 by (simp add: decimal.simps [of u])
next
  case (Suc k)
  show ?case
  proof (cases "u < 10")
    case True
    have u0: "utod 0 = CHR ''0''" by (simp add: utod_def char_of_eq_iff)
    have z: "fixed n 0 = replicate n (CHR ''0'')" for n
      by (induction n) (simp_all add: u0 replicate_append_same)
    have "u div 10 = 0" "u mod 10 = u" using True Suc.prems by simp_all
    then show ?thesis using True by (simp add: decimal.simps [of u] z)
  next
    case False
    have b: "0 \<le> u div 10" "u div 10 < 10 ^ Suc k"
      using Suc.prems by (simp_all add: div_less_iff_less_mult mult.commute)
    note ih = Suc.IH [OF b]
    have d: "decimal u = decimal (u div 10) @ [utod (u mod 10)]"
      using False by (simp add: decimal.simps [of u])
    show ?thesis using ih by (simp add: d Suc_diff_le)
  qed
qed

lemma appendInt_9:
  assumes "0 \<le> x" "x < 1000000000"
  shows "appendInt x 9 = fixed 9 x"
proof -
  have nine: "(9::nat) = Suc 8" by simp
  have "x < 10 ^ Suc 8" using assms by simp
  from decimal_fixed [OF assms(1) this]
  have "replicate (9 - length (decimal x)) (CHR ''0'') @ decimal x = fixed 9 x"
    by (simp only: nine)
  then show ?thesis using assms by (simp add: appendInt_def)
qed

lemma digits_fixed: "c \<in> set (fixed k u) \<Longrightarrow> digit c"
proof (induction k arbitrary: u)
  case 0
  then show ?case by simp
next
  case (Suc k)
  have "0 \<le> u mod 10" "u mod 10 < 10" by simp_all
  then have "digit (utod (u mod 10))" by (simp add: digit_def of_char_utod)
  then show ?case using Suc by auto
qed

lemma trimz_Cons:
  "trimz (x # xs) =
     (if trimz xs = [] then (if x = CHR ''0'' then [] else [x]) else x # trimz xs)"
  by (auto simp add: trimz_def dropWhile_append)

lemma trimz_Nil_iff: "trimz xs = [] \<longleftrightarrow> (\<forall>c\<in>set xs. c = CHR ''0'')"
  by (simp add: trimz_def dropWhile_eq_Nil_conv)

lemma zero_is_least: "digit c \<Longrightarrow> \<not> (of_char c :: int) < of_char (CHR ''0'')"
  by (simp add: digit_def)

lemma text_lt_not_zeros:
  "length xs = length ys \<Longrightarrow> text_lt xs ys \<Longrightarrow> \<forall>c\<in>set xs. digit c \<Longrightarrow>
   \<exists>c\<in>set ys. c \<noteq> CHR ''0''"
proof (induction xs ys rule: list_induct2)
  case Nil
  then show ?case by simp
next
  case (Cons x xs y ys)
  show ?case
  proof (cases "(of_char x :: int) < of_char y")
    case True
    have "digit x" using Cons.prems by simp
    then have "y \<noteq> CHR ''0''" using True zero_is_least by auto
    then show ?thesis by auto
  next
    case False
    then have "text_lt xs ys" using Cons.prems by simp
    then show ?thesis using Cons.IH Cons.prems by auto
  qed
qed

lemma trimz_lt:
  "length xs = length ys \<Longrightarrow> text_lt xs ys \<Longrightarrow> \<forall>c\<in>set xs. digit c \<Longrightarrow>
   \<forall>c\<in>set ys. digit c \<Longrightarrow> (of_char c0 :: int) < 48 \<Longrightarrow>
   text_lt (trimz xs @ c0 # s) (trimz ys @ c0 # s)"
proof (induction xs ys rule: list_induct2)
  case Nil
  then show ?case by simp
next
  case (Cons x xs y ys)
  have dx: "digit x" and dy: "digit y" using Cons.prems by simp_all
  have c0x: "(of_char c0 :: int) < of_char x" "(of_char c0 :: int) < of_char y"
    using dx dy Cons.prems(4) by (simp_all add: digit_def)
  show ?case
  proof (cases "(of_char x :: int) < of_char y")
    case True
    have yn: "y \<noteq> CHR ''0''" using True dx zero_is_least by auto
    show ?thesis using True c0x yn by (simp add: trimz_Cons)
  next
    case False
    then have eq: "x = y" and lt: "text_lt xs ys" using Cons.prems by simp_all
    have "\<exists>c\<in>set ys. c \<noteq> CHR ''0''"
      using text_lt_not_zeros [OF Cons.hyps lt] Cons.prems by simp
    then have ne: "trimz ys \<noteq> []" by (simp add: trimz_Nil_iff)
    have ih: "text_lt (trimz xs @ c0 # s) (trimz ys @ c0 # s)"
      using Cons.IH lt Cons.prems by simp
    show ?thesis
    proof (cases "trimz xs = []")
      case True
      then show ?thesis using ih ne c0x eq Cons.prems(4) by (simp add: trimz_Cons)
    next
      case False
      then show ?thesis using ih ne eq by (simp add: trimz_Cons)
    qed
  qed
qed

lemma appendNano_lt:
  assumes "0 \<le> a" "a < b" "b < 1000000000"
  shows "text_lt (appendNano a @ ''+00:00'') (appendNano b @ ''+00:00'')"
proof -
  have fb: "appendInt b 9 = fixed 9 b" using assms by (intro appendInt_9) simp_all
  have lt: "text_lt (fixed 9 a) (fixed 9 b)"
    using fixed_lt [of a b 9 "[]" "[]"] assms by simp
  have nz: "b \<noteq> 0" using assms by simp
  show ?thesis
  proof (cases "a = 0")
    case True
    then show ?thesis using nz by (simp add: appendNano_def)
  next
    case False
    have fa: "appendInt a 9 = fixed 9 a" using assms by (intro appendInt_9) simp_all
    have "text_lt (trimz (fixed 9 a) @ CHR ''+'' # ''00:00'') (trimz (fixed 9 b) @ CHR ''+'' # ''00:00'')"
      using lt by (intro trimz_lt) (simp_all add: length_fixed digits_fixed)
    then show ?thesis using False nz
      by (simp add: appendNano_def fa fb)
  qed
qed


lemma yearOf_fst_ge: "y \<le> fst (yearOf y d)"
proof (induction y d rule: yearOf.induct)
  case (1 y d)
  show ?case
  proof (cases "d < daysInYear y")
    case True
    then show ?thesis by (simp add: yearOf.simps [of y d])
  next
    case False
    then show ?thesis using 1 by (simp add: yearOf.simps [of y d])
  qed
qed

lemma yearOf_snd:
  "0 \<le> d \<Longrightarrow> 0 \<le> snd (yearOf y d) \<and> snd (yearOf y d) < daysInYear (fst (yearOf y d))"
proof (induction y d rule: yearOf.induct)
  case (1 y d)
  show ?case
  proof (cases "d < daysInYear y")
    case True
    then show ?thesis using "1.prems" by (simp add: yearOf.simps [of y d])
  next
    case False
    then have "0 \<le> d - daysInYear y" by simp
    then show ?thesis using False "1.IH" by (simp add: yearOf.simps [of y d])
  qed
qed

lemma yearOf_mono:
  "d1 \<le> d2 \<Longrightarrow>
   fst (yearOf y d1) < fst (yearOf y d2)
   \<or> (fst (yearOf y d1) = fst (yearOf y d2)
       \<and> snd (yearOf y d2) - snd (yearOf y d1) = d2 - d1)"
proof (induction y d1 arbitrary: d2 rule: yearOf.induct)
  case (1 y d1)
  show ?case
  proof (cases "d1 < daysInYear y")
    case stop: True
    show ?thesis
    proof (cases "d2 < daysInYear y")
      case True
      then show ?thesis using stop by (simp add: yearOf.simps [of y d1] yearOf.simps [of y d2])
    next
      case False
      have "y + 1 \<le> fst (yearOf (y + 1) (d2 - daysInYear y))" by (rule yearOf_fst_ge)
      then show ?thesis using stop False
        by (simp add: yearOf.simps [of y d1] yearOf.simps [of y d2])
    qed
  next
    case False
    then have f2: "\<not> d2 < daysInYear y" using "1.prems" by simp
    have "d1 - daysInYear y \<le> d2 - daysInYear y" using "1.prems" by simp
    from "1.IH" [OF False this] show ?thesis using False f2
      by (simp add: yearOf.simps [of y d1] yearOf.simps [of y d2])
  qed
qed

lemma monthOf_fst_ge: "m \<le> fst (monthOf lp m d)"
proof (induction lp m d rule: monthOf.induct)
  case (1 lp m d)
  show ?case
  proof (cases "d < daysIn lp m")
    case True
    then show ?thesis by (simp add: monthOf.simps [of lp m d])
  next
    case False
    then show ?thesis using 1 by (simp add: monthOf.simps [of lp m d])
  qed
qed

lemma monthOf_snd:
  "0 \<le> d \<Longrightarrow> 0 \<le> snd (monthOf lp m d) \<and> snd (monthOf lp m d) < 31"
proof (induction lp m d rule: monthOf.induct)
  case (1 lp m d)
  show ?case
  proof (cases "d < daysIn lp m")
    case True
    have "daysIn lp m \<le> 31" by (simp add: daysIn_def)
    then show ?thesis using True "1.prems" by (simp add: monthOf.simps [of lp m d])
  next
    case False
    have "daysIn lp m \<le> 31" by (simp add: daysIn_def)
    then have "0 \<le> d - daysIn lp m" using False by simp
    then show ?thesis using False "1.IH" by (simp add: monthOf.simps [of lp m d])
  qed
qed

lemma monthOf_mono:
  "d1 \<le> d2 \<Longrightarrow>
   fst (monthOf lp m d1) < fst (monthOf lp m d2)
   \<or> (fst (monthOf lp m d1) = fst (monthOf lp m d2)
       \<and> snd (monthOf lp m d2) - snd (monthOf lp m d1) = d2 - d1)"
proof (induction lp m d1 arbitrary: d2 rule: monthOf.induct)
  case (1 lp m d1)
  show ?case
  proof (cases "d1 < daysIn lp m")
    case stop: True
    show ?thesis
    proof (cases "d2 < daysIn lp m")
      case True
      then show ?thesis using stop
        by (simp add: monthOf.simps [of lp m d1] monthOf.simps [of lp m d2])
    next
      case False
      have "m + 1 \<le> fst (monthOf lp (m + 1) (d2 - daysIn lp m))" by (rule monthOf_fst_ge)
      then show ?thesis using stop False
        by (simp add: monthOf.simps [of lp m d1] monthOf.simps [of lp m d2])
    qed
  next
    case False
    then have f2: "\<not> d2 < daysIn lp m" using "1.prems" by simp
    have "d1 - daysIn lp m \<le> d2 - daysIn lp m" using "1.prems" by simp
    from "1.IH" [OF False this] show ?thesis using False f2
      by (simp add: monthOf.simps [of lp m d1] monthOf.simps [of lp m d2])
  qed
qed

lemma yearOf_last: "yearOf 0 146096 = (399, 364)"
  by code_simp

lemma monthOf_last: "monthOf True 1 365 = (12, 30)" "monthOf False 1 364 = (12, 30)"
  by code_simp+


lemma yoe_bounds:
  assumes "0 \<le> d" "d < 146097"
  shows "0 \<le> fst (yearOf 0 d)" "fst (yearOf 0 d) \<le> 399"
proof -
  show "0 \<le> fst (yearOf 0 d)" by (rule yearOf_fst_ge)
  have "d \<le> 146096" using assms by simp
  from yearOf_mono [OF this, of 0] show "fst (yearOf 0 d) \<le> 399"
    by (auto simp add: yearOf_last)
qed

lemma month_bounds:
  assumes "0 \<le> d" "d < daysInYear y"
  shows "1 \<le> fst (monthOf (isLeap y) 1 d)" "fst (monthOf (isLeap y) 1 d) \<le> 12"
proof -
  show "1 \<le> fst (monthOf (isLeap y) 1 d)" by (rule monthOf_fst_ge)
  show "fst (monthOf (isLeap y) 1 d) \<le> 12"
  proof (cases "isLeap y")
    case True
    then have "d \<le> 365" using assms by (simp add: daysInYear_def)
    from monthOf_mono [OF this, of True 1] show ?thesis using True
      by (auto simp add: monthOf_last)
  next
    case False
    then have "d \<le> 364" using assms by (simp add: daysInYear_def)
    from monthOf_mono [OF this, of False 1] show ?thesis using False
      by (auto simp add: monthOf_last)
  qed
qed

lemma civil_bounds:
  assumes z: "0 \<le> z" "z < 3652425" and c: "civil z = (y, m, d)"
  shows "0 \<le> y \<and> y < 10000 \<and> 0 \<le> m \<and> m < 100 \<and> 0 \<le> d \<and> d < 100"
proof -
  let ?doe = "z mod 146097"
  obtain yoe doy where yo: "yearOf 0 ?doe = (yoe, doy)" by (cases "yearOf 0 ?doe")
  obtain mm dom where mo: "monthOf (isLeap yoe) 1 doy = (mm, dom)"
    by (cases "monthOf (isLeap yoe) 1 doy")
  have doe: "0 \<le> ?doe" "?doe < 146097" by simp_all
  have yb: "0 \<le> yoe" "yoe \<le> 399" using yoe_bounds [OF doe] yo by simp_all
  have db: "0 \<le> doy" "doy < daysInYear yoe" using yearOf_snd [OF doe(1), of 0] yo by simp_all
  have mb: "1 \<le> mm" "mm \<le> 12" using month_bounds [OF db] mo by simp_all
  have dm: "0 \<le> dom" "dom < 31" using monthOf_snd [OF db(1), of "isLeap yoe" 1] mo by simp_all
  have era: "0 \<le> z div 146097" "z div 146097 \<le> 24" using z by simp_all
  have "y = 400 * (z div 146097) + yoe" "m = mm" "d = dom + 1"
    using c by (simp_all add: civil_def yo mo)
  then show ?thesis using yb mb dm era by simp
qed

lemma civil_mono:
  assumes z: "0 \<le> z1" "z1 < z2" and c1: "civil z1 = (y1, m1, d1)" and c2: "civil z2 = (y2, m2, d2)"
  shows "y1 < y2 \<or> (y1 = y2 \<and> (m1 < m2 \<or> (m1 = m2 \<and> d1 < d2)))"
proof -
  let ?doe1 = "z1 mod 146097" and ?doe2 = "z2 mod 146097"
  obtain yoe1 doy1 where yo1: "yearOf 0 ?doe1 = (yoe1, doy1)" by (cases "yearOf 0 ?doe1")
  obtain yoe2 doy2 where yo2: "yearOf 0 ?doe2 = (yoe2, doy2)" by (cases "yearOf 0 ?doe2")
  obtain mm1 dom1 where mo1: "monthOf (isLeap yoe1) 1 doy1 = (mm1, dom1)"
    by (cases "monthOf (isLeap yoe1) 1 doy1")
  obtain mm2 dom2 where mo2: "monthOf (isLeap yoe2) 1 doy2 = (mm2, dom2)"
    by (cases "monthOf (isLeap yoe2) 1 doy2")
  have e1: "y1 = 400 * (z1 div 146097) + yoe1" "m1 = mm1" "d1 = dom1 + 1"
    using c1 by (simp_all add: civil_def yo1 mo1)
  have e2: "y2 = 400 * (z2 div 146097) + yoe2" "m2 = mm2" "d2 = dom2 + 1"
    using c2 by (simp_all add: civil_def yo2 mo2)
  have doe1: "0 \<le> ?doe1" "?doe1 < 146097" and doe2: "0 \<le> ?doe2" "?doe2 < 146097"
    by simp_all
  have yb1: "0 \<le> yoe1" "yoe1 \<le> 399" using yoe_bounds [OF doe1] yo1 by simp_all
  have yb2: "0 \<le> yoe2" "yoe2 \<le> 399" using yoe_bounds [OF doe2] yo2 by simp_all
  have le: "z1 div 146097 \<le> z2 div 146097" using z by (simp add: zdiv_mono1)
  show ?thesis
  proof (cases "z1 div 146097 < z2 div 146097")
    case True
    then show ?thesis using e1 e2 yb1 yb2 by simp
  next
    case False
    then have eq: "z1 div 146097 = z2 div 146097" using le by simp
    have dlt: "?doe1 < ?doe2"
      using z(2) eq by (metis mult_div_mod_eq add_less_cancel_left)
    then have dle: "?doe1 \<le> ?doe2" by simp
    from yearOf_mono [OF dle, of 0]
    have "yoe1 < yoe2 \<or> (yoe1 = yoe2 \<and> doy2 - doy1 = ?doe2 - ?doe1)"
      by (simp add: yo1 yo2)
    then show ?thesis
    proof
      assume "yoe1 < yoe2"
      then show ?thesis using e1 e2 eq by simp
    next
      assume a: "yoe1 = yoe2 \<and> doy2 - doy1 = ?doe2 - ?doe1"
      then have ylt: "doy1 < doy2" using dlt by simp
      then have "doy1 \<le> doy2" by simp
      moreover have mo1': "monthOf (isLeap yoe2) 1 doy1 = (mm1, dom1)" using mo1 a by simp
      ultimately have "mm1 < mm2 \<or> (mm1 = mm2 \<and> dom2 - dom1 = doy2 - doy1)"
        using monthOf_mono [of doy1 doy2 "isLeap yoe2" 1] by (simp add: mo2)
      then show ?thesis using e1 e2 eq a ylt by auto
    qed
  qed
qed


lemma divmod_lex:
  fixes a b k :: int
  assumes "0 < k" "a < b"
  shows "a div k < b div k \<or> (a div k = b div k \<and> a mod k < b mod k)"
proof (cases "a div k < b div k")
  case True
  then show ?thesis by simp
next
  case False
  have "a div k \<le> b div k" using assms by (simp add: zdiv_mono1)
  then have eq: "a div k = b div k" using False by simp
  have "a mod k < b mod k"
    using assms(2) eq by (metis mult_div_mod_eq add_less_cancel_left)
  then show ?thesis using eq by simp
qed

lemma range_z:
  assumes "four_digit_year t"
  shows "0 \<le> t div Second div 86400 + 719528" "t div Second div 86400 + 719528 < 3652425"
proof -
  have lo: "- 62167219200 * 1000000000 \<le> t" and hi: "t < 253402300800 * 1000000000"
    using assms by (simp_all add: four_digit_year_def year0_def year10000_def Second_def)
  have "- 62167219200 \<le> t div 1000000000" using lo by linarith
  then have "- 719528 \<le> t div 1000000000 div 86400" by linarith
  then show "0 \<le> t div Second div 86400 + 719528" by (simp add: Second_def)
  have "t div 1000000000 < 253402300800" using hi by linarith
  then have "t div 1000000000 div 86400 < 2932897" by linarith
  then show "t div Second div 86400 + 719528 < 3652425" by (simp add: Second_def)
qed

lemma field_iff:
  assumes "0 \<le> a" "a < 10 ^ k" "0 \<le> b" "b < 10 ^ k"
  shows "text_lt (fixed k a @ x) (fixed k b @ y) = (a < b \<or> (a = b \<and> text_lt x y))"
proof (cases a b rule: linorder_cases)
  case less
  then show ?thesis using fixed_lt [OF assms(1) less assms(4)] by simp
next
  case equal
  then show ?thesis by (simp add: text_lt_prefix)
next
  case greater
  from fixed_lt [OF assms(3) greater assms(2), of y x]
  have "\<not> text_lt (fixed k a @ x) (fixed k b @ y)" using text_lt_asym by blast
  then show ?thesis using greater by simp
qed

lemma stamp_lt:
  fixes y1 m1 d1 h1 i1 s1 n1 y2 m2 d2 h2 i2 s2 n2 :: int
  assumes y: "0 \<le> y1" "y1 < 10 ^ 4" "0 \<le> y2" "y2 < 10 ^ 4"
    and m: "0 \<le> m1" "m1 < 10 ^ 2" "0 \<le> m2" "m2 < 10 ^ 2"
    and d: "0 \<le> d1" "d1 < 10 ^ 2" "0 \<le> d2" "d2 < 10 ^ 2"
    and h: "0 \<le> h1" "h1 < 10 ^ 2" "0 \<le> h2" "h2 < 10 ^ 2"
    and i: "0 \<le> i1" "i1 < 10 ^ 2" "0 \<le> i2" "i2 < 10 ^ 2"
    and s: "0 \<le> s1" "s1 < 10 ^ 2" "0 \<le> s2" "s2 < 10 ^ 2"
    and n: "0 \<le> n1" "n2 < 1000000000"
    and lex: "y1 < y2 \<or> (y1 = y2 \<and> (m1 < m2 \<or> (m1 = m2 \<and> (d1 < d2 \<or> (d1 = d2 \<and>
               (h1 < h2 \<or> (h1 = h2 \<and> (i1 < i2 \<or> (i1 = i2 \<and> (s1 < s2 \<or> (s1 = s2 \<and>
                 n1 < n2)))))))))))"
  shows "text_lt
     (fixed 4 y1 @ CHR ''-'' # fixed 2 m1 @ CHR ''-'' # fixed 2 d1 @ CHR '' '' #
      fixed 2 h1 @ CHR '':'' # fixed 2 i1 @ CHR '':'' # fixed 2 s1 @ appendNano n1 @ ''+00:00'')
     (fixed 4 y2 @ CHR ''-'' # fixed 2 m2 @ CHR ''-'' # fixed 2 d2 @ CHR '' '' #
      fixed 2 h2 @ CHR '':'' # fixed 2 i2 @ CHR '':'' # fixed 2 s2 @ appendNano n2 @ ''+00:00'')"
proof -
  have sep: "text_lt (c # u) (c # v) = text_lt u v" for c u v by simp
  have nano: "n1 < n2 \<Longrightarrow> text_lt (appendNano n1 @ ''+00:00'') (appendNano n2 @ ''+00:00'')"
    using appendNano_lt [OF n(1) _ n(2)] by simp
  show ?thesis
    unfolding field_iff [OF y] field_iff [OF m] field_iff [OF d] field_iff [OF h]
      field_iff [OF i] field_iff [OF s] sep
    using lex nano by blast
qed

lemma fmt_fixed:
  assumes r: "four_digit_year t" and d: "Date t = (y, m, d)"
  shows "SQLiteTimestamp t =
     fixed 4 y @ CHR ''-'' # fixed 2 m @ CHR ''-'' # fixed 2 d @ CHR '' '' #
     fixed 2 (t div Second mod 86400 div 3600) @ CHR '':'' #
     fixed 2 (t div Second mod 86400 mod 3600 div 60) @ CHR '':'' #
     fixed 2 (t div Second mod 86400 mod 60) @ appendNano (t mod Second) @ ''+00:00''"
proof -
  let ?sod = "t div Second mod 86400"
  have c: "civil (t div Second div 86400 + 719528) = (y, m, d)" using d by (simp add: Date_def)
  note b = civil_bounds [OF range_z [OF r] c]
  have s: "0 \<le> ?sod" "?sod < 86400" by simp_all
  have h: "0 \<le> ?sod div 3600" "?sod div 3600 < 100" using s by simp_all
  have mi: "0 \<le> ?sod mod 3600 div 60" "?sod mod 3600 div 60 < 100"
  proof -
    show "0 \<le> ?sod mod 3600 div 60" by simp
    have "?sod mod 3600 < 3600" by simp
    then show "?sod mod 3600 div 60 < 100" by linarith
  qed
  have se: "0 \<le> ?sod mod 60" "?sod mod 60 < 100"
  proof -
    show "0 \<le> ?sod mod 60" by simp
    have "?sod mod 60 < 60" by simp
    then show "?sod mod 60 < 100" by linarith
  qed
  have "SQLiteTimestamp t =
     fixed 4 y @ ''-'' @ fixed 2 m @ ''-'' @ fixed 2 d @ '' ''
     @ fixed 2 (?sod div 3600) @ '':'' @ fixed 2 (?sod mod 3600 div 60) @ '':''
     @ fixed 2 (?sod mod 60) @ appendNano (t mod Second) @ ''+00:00''"
    unfolding SQLiteTimestamp_def Let_def d prod.case
    using b h mi se
    by (simp only: appendInt_2 appendInt_4)
  then show ?thesis by (simp only: append_Cons append_Nil)
qed

lemma SQLiteTimestamp_mono:
  assumes r1: "four_digit_year t1" and r2: "four_digit_year t2" and lt: "t1 < t2"
  shows "text_lt (SQLiteTimestamp t1) (SQLiteTimestamp t2)"
proof -
  define s1 where "s1 = t1 div Second"
  define s2 where "s2 = t2 div Second"
  define z1 where "z1 = s1 div 86400 + 719528"
  define z2 where "z2 = s2 div 86400 + 719528"
  define sod1 where "sod1 = s1 mod 86400"
  define sod2 where "sod2 = s2 mod 86400"
  define n1 where "n1 = t1 mod Second"
  define n2 where "n2 = t2 mod Second"
  obtain y1 m1 d1 where c1: "civil z1 = (y1, m1, d1)" by (cases "civil z1")
  obtain y2 m2 d2 where c2: "civil z2 = (y2, m2, d2)" by (cases "civil z2")
  have D1: "Date t1 = (y1, m1, d1)" and D2: "Date t2 = (y2, m2, d2)"
    using c1 c2 by (simp_all add: Date_def z1_def z2_def s1_def s2_def)
  note f1 = fmt_fixed [OF r1 D1, folded s1_def, folded sod1_def n1_def]
    and f2 = fmt_fixed [OF r2 D2, folded s2_def, folded sod2_def n2_def]
  have rz1: "0 \<le> z1" "z1 < 3652425" using range_z [OF r1] by (simp_all add: z1_def s1_def)
  have rz2: "0 \<le> z2" "z2 < 3652425" using range_z [OF r2] by (simp_all add: z2_def s2_def)
  note b1 = civil_bounds [OF rz1 c1] and b2 = civil_bounds [OF rz2 c2]
  have sec: "s1 < s2 \<or> (s1 = s2 \<and> n1 < n2)"
    using divmod_lex [of Second t1 t2] lt by (simp add: Second_def s1_def s2_def n1_def n2_def)
  have day: "s1 < s2 \<Longrightarrow> z1 < z2 \<or> (z1 = z2 \<and> sod1 < sod2)"
    using divmod_lex [of 86400 s1 s2] by (simp add: z1_def z2_def sod1_def sod2_def)
  have same_day: "z1 = z2 \<Longrightarrow> y1 = y2 \<and> m1 = m2 \<and> d1 = d2"
    using c1 c2 by simp
  have same_sec: "s1 = s2 \<Longrightarrow> z1 = z2 \<and> sod1 = sod2"
    by (simp add: z1_def z2_def sod1_def sod2_def)
  have date: "z1 < z2 \<Longrightarrow> y1 < y2 \<or> (y1 = y2 \<and> (m1 < m2 \<or> (m1 = m2 \<and> d1 < d2)))"
    using civil_mono [OF rz1(1) _ c1 c2] by simp
  have sb1: "0 \<le> sod1" "sod1 < 86400" and sb2: "0 \<le> sod2" "sod2 < 86400"
    by (simp_all add: sod1_def sod2_def)
  have m60: "x mod 3600 mod 60 = x mod 60" for x :: int
    by (simp add: mod_mod_cancel)
  have clock: "sod1 < sod2 \<Longrightarrow>
      sod1 div 3600 < sod2 div 3600
      \<or> (sod1 div 3600 = sod2 div 3600
          \<and> (sod1 mod 3600 div 60 < sod2 mod 3600 div 60
              \<or> (sod1 mod 3600 div 60 = sod2 mod 3600 div 60 \<and> sod1 mod 60 < sod2 mod 60)))"
    using divmod_lex [of 3600 sod1 sod2] divmod_lex [of 60 "sod1 mod 3600" "sod2 mod 3600"]
    by (auto simp add: m60)
  have hb: "0 \<le> sod1 div 3600" "sod1 div 3600 < 10 ^ 2" "0 \<le> sod2 div 3600"
    "sod2 div 3600 < 10 ^ 2"
    using sb1 sb2 by simp_all
  have r36: "0 \<le> x mod 3600 \<and> x mod 3600 < 3600" for x :: int by simp
  have ib: "0 \<le> sod1 mod 3600 div 60" "sod1 mod 3600 div 60 < 10 ^ 2"
    "0 \<le> sod2 mod 3600 div 60" "sod2 mod 3600 div 60 < 10 ^ 2"
    using r36 [of sod1] r36 [of sod2] by simp_all
  have r60: "0 \<le> x mod 60 \<and> x mod 60 < 60" for x :: int by simp
  have cb: "0 \<le> sod1 mod 60" "sod1 mod 60 < 10 ^ 2" "0 \<le> sod2 mod 60" "sod2 mod 60 < 10 ^ 2"
    using r60 [of sod1] r60 [of sod2] by simp_all
  have nb: "0 \<le> n1" "n2 < 1000000000" by (simp_all add: n1_def n2_def Second_def)
  have yb: "0 \<le> y1" "y1 < 10 ^ 4" "0 \<le> y2" "y2 < 10 ^ 4" using b1 b2 by simp_all
  have mb: "0 \<le> m1" "m1 < 10 ^ 2" "0 \<le> m2" "m2 < 10 ^ 2" using b1 b2 by simp_all
  have db: "0 \<le> d1" "d1 < 10 ^ 2" "0 \<le> d2" "d2 < 10 ^ 2" using b1 b2 by simp_all
  have lex: "y1 < y2 \<or> (y1 = y2 \<and> (m1 < m2 \<or> (m1 = m2 \<and> (d1 < d2 \<or> (d1 = d2 \<and>
      (sod1 div 3600 < sod2 div 3600 \<or> (sod1 div 3600 = sod2 div 3600 \<and>
        (sod1 mod 3600 div 60 < sod2 mod 3600 div 60
          \<or> (sod1 mod 3600 div 60 = sod2 mod 3600 div 60 \<and>
             (sod1 mod 60 < sod2 mod 60 \<or> (sod1 mod 60 = sod2 mod 60 \<and> n1 < n2)))))))))))"
    using sec day same_day same_sec date clock by blast
  show ?thesis
    unfolding f1 f2 by (rule stamp_lt [OF yb mb db hb ib cb nb lex])
qed

lemma stored_order:
  assumes "four_digit_year t1" "four_digit_year t2"
  shows "text_lt (SQLiteTimestamp t1) (SQLiteTimestamp t2) \<longleftrightarrow> t1 < t2"
proof
  assume a: "text_lt (SQLiteTimestamp t1) (SQLiteTimestamp t2)"
  show "t1 < t2"
  proof (rule ccontr)
    assume "\<not> t1 < t2"
    then consider "t1 = t2" | "t2 < t1" by linarith
    then show False
    proof cases
      case 1
      then show False using a text_lt_irrefl by simp
    next
      case 2
      from SQLiteTimestamp_mono [OF assms(2) assms(1) 2] a text_lt_asym show False by blast
    qed
  qed
next
  assume "t1 < t2"
  then show "text_lt (SQLiteTimestamp t1) (SQLiteTimestamp t2)"
    using assms by (intro SQLiteTimestamp_mono)
qed

text \<open>
  At fixed instants: the clock of the tests, a fraction of a second, the last second of
  year 9999 and the first one of year 10000, which sorts below every four-digit year.
\<close>

lemma SQLiteTimestamp_examples:
  "SQLiteTimestamp test_now = ''2026-02-21 12:00:00+00:00''"
  "SQLiteTimestamp (test_now + 500000000) = ''2026-02-21 12:00:00.5+00:00''"
  "SQLiteTimestamp 10 = ''1970-01-01 00:00:00.00000001+00:00''"
  "SQLiteTimestamp (951782400 * Second) = ''2000-02-29 00:00:00+00:00''"
  "SQLiteTimestamp (year10000 - Second) = ''9999-12-31 23:59:59+00:00''"
  "SQLiteTimestamp year10000 = ''10000-01-01 00:00:00+00:00''"
  "SQLiteTimestamp year0 = ''0000-01-01 00:00:00+00:00''"
  by code_simp+

text \<open>
  C7 as stated fails for a row stamped in year 10000 or later: its text begins with
  \<open>1\<close>, sorts below the text of a cutoff in 2026, and the row is deleted although it is
  not older than the cutoff.
\<close>

theorem retention_deletes_year_10000:
  "\<not> le_TS late_log < retention_cutoff
   \<and> SQLiteTimestamp (le_TS late_log) = ''10000-01-01 00:59:59+00:00''
   \<and> SQLiteTimestamp retention_cutoff = ''2026-01-22 12:00:00+00:00''
   \<and> logs late_store = [late_log]
   \<and> logs (snd (DeleteOlderThan retention_cutoff late_store)) = []"
  by code_simp

text \<open>
  C7, amended. For a cutoff with a four-digit year, the retention delete removes exactly
  the rows with \<open>ts < cutoff\<close> among the host metrics, container metrics and logs whose
  timestamp has a four-digit year, and exactly the alerts with \<open>started_ts < cutoff\<close> and
  status recovered among the alerts whose \<open>started_ts\<close> has a four-digit year: every other
  such row stays, as often as it was there. The firing alerts are the same list before
  and after, whatever their timestamps.
\<close>

theorem retention_exact:
  assumes cut: "four_digit_year cutoff"
  shows "fst (DeleteOlderThan cutoff repo) = None
   \<and> (four_digit_year (hm_TS h) \<longrightarrow>
        count_list (host_metrics (snd (DeleteOlderThan cutoff repo))) h =
          (if hm_TS h < cutoff then 0 else count_list (host_metrics repo) h))
   \<and> (four_digit_year (cm_TS c) \<longrightarrow>
        count_list (container_metrics (snd (DeleteOlderThan cutoff repo))) c =
          (if cm_TS c < cutoff then 0 else count_list (container_metrics repo) c))
   \<and> (four_digit_year (le_TS l) \<longrightarrow>
        count_list (logs (snd (DeleteOlderThan cutoff repo))) l =
          (if le_TS l < cutoff then 0 else count_list (logs repo) l))
   \<and> (four_digit_year (a_started_ts a) \<longrightarrow>
        count_list (alerts (snd (DeleteOlderThan cutoff repo))) a =
          (if a_started_ts a < cutoff \<and> a_status a = ''recovered'' then 0
           else count_list (alerts repo) a))
   \<and> [x \<leftarrow> alerts (snd (DeleteOlderThan cutoff repo)). a_status x = ''firing''] =
       [x \<leftarrow> alerts repo. a_status x = ''firing'']"
proof -
  have f: "[x \<leftarrow> [a \<leftarrow> alerts repo.
                    \<not> (stored_before (a_started_ts a) cutoff \<and> a_status a = ''recovered'')].
             a_status x = ''firing''] = [x \<leftarrow> alerts repo. a_status x = ''firing'']"
    by (auto intro!: filter_cong)
  have o: "stored_before t cutoff = (t < cutoff)" if "four_digit_year t" for t
    unfolding stored_before_def using that cut by (rule stored_order)
  show ?thesis using f
    by (simp add: DeleteOlderThan_def Let_def count_list_filter o)
qed

theorem retention_exact_witness:
  "four_digit_year 20
   \<and> four_digit_year (hm_TS (host_metric_at 10))
   \<and> four_digit_year (hm_TS (host_metric_at 30))
   \<and> four_digit_year (a_started_ts (alert_at 1 ''recovered'' 10))
   \<and> count_list (host_metrics (snd (DeleteOlderThan 20 retention_store))) (host_metric_at 10) = 0
   \<and> count_list (host_metrics (snd (DeleteOlderThan 20 retention_store))) (host_metric_at 30) = 1
   \<and> count_list (alerts (snd (DeleteOlderThan 20 retention_store))) (alert_at 1 ''recovered'' 10) = 0
   \<and> count_list (alerts (snd (DeleteOlderThan 20 retention_store))) (alert_at 2 ''firing'' 10) = 1
   \<and> count_list (alerts (snd (DeleteOlderThan 20 retention_store))) (alert_at 3 ''recovered'' 30) = 1"
proof -
  have r: "four_digit_year 20" "four_digit_year 10" "four_digit_year 30"
    by (simp_all add: four_digit_year_def year0_def year10000_def Second_def)
  note a = retention_exact [OF r(1), where repo = retention_store
                            and h = "host_metric_at 10" and a = "alert_at 1 ''recovered'' 10"]
  note b = retention_exact [OF r(1), where repo = retention_store
                            and h = "host_metric_at 30" and a = "alert_at 2 ''firing'' 10"]
  note c = retention_exact [OF r(1), where repo = retention_store
                            and a = "alert_at 3 ''recovered'' 30"]
  have k: "count_list (host_metrics retention_store) (host_metric_at 30) = 1"
    "count_list (alerts retention_store) (alert_at 2 ''firing'' 10) = 1"
    "count_list (alerts retention_store) (alert_at 3 ''recovered'' 30) = 1"
    by (simp_all add: retention_store_def host_metric_at_def alert_at_def)
  show ?thesis using a b c k r by (simp add: host_metric_at_def alert_at_def)
qed

section \<open>Stats normalizer: counters going backwards\<close>

text \<open>
  The two deltas are differences of \<^verbatim>\<open>uint64\<close> values, taken before the conversion to
  \<^verbatim>\<open>float64\<close>: a smaller current counter wraps around to a large positive delta, so
  \<open>cpuDelta \<ge> 0\<close> always holds and \<open>sysDelta > 0\<close> unless the two system counters are
  equal.
\<close>

lemma float64_of_uint64_pos: "(0 < float64_of_uint64 x) = (x \<noteq> 0)"
  by (simp only: float64_of_uint64_def of_nat_0_less_iff unat_gt_0)

lemma NormalizeStats_cpu:
  "cm_CPUPct (NormalizeStats i s) =
     (if CPUStats_SystemCPUUsage s = PreCPUStats_SystemCPUUsage s then Fin 0
      else Fin (float64_of_uint64
                  (CPUStats_CPUUsage_TotalUsage s - PreCPUStats_CPUUsage_TotalUsage s)
                / float64_of_uint64 (CPUStats_SystemCPUUsage s - PreCPUStats_SystemCPUUsage s)
                * (if CPUStats_OnlineCPUs s \<noteq> 0 then float64_of_uint64 (CPUStats_OnlineCPUs s)
                   else if CPUStats_CPUUsage_PercpuUsage s \<noteq> []
                   then real (length (CPUStats_CPUUsage_PercpuUsage s)) else 1)
                * 100))"
proof -
  have nonneg: "0 \<le> float64_of_uint64
          (CPUStats_CPUUsage_TotalUsage s - PreCPUStats_CPUUsage_TotalUsage s)"
    by (simp only: float64_of_uint64_def of_nat_0_le_iff)
  have z: "(float64_of_uint64 (CPUStats_OnlineCPUs s) = 0) = (CPUStats_OnlineCPUs s = 0)"
    by (simp only: float64_of_uint64_def of_nat_eq_0_iff unat_eq_0)
  show ?thesis
    using nonneg
    by (simp add: NormalizeStats_def Let_def float64_of_uint64_pos z)
qed


text \<open>
  C6. The test's snapshot with the system counter gone backwards (current 100, previous
  200), the usage counters as before (150 after 100), two CPUs online. The unsigned
  difference of 100 and 200 is 18446744073709551516, the guard \<open>sysDelta > 0\<close> passes and
  the result is \<open>50 / 18446744073709551516 * 2 * 100\<close>, not 0.
\<close>

theorem cpu_pct_after_counter_reset:
  "CPUStats_SystemCPUUsage reset_stats < PreCPUStats_SystemCPUUsage reset_stats
   \<and> cm_CPUPct (NormalizeStats ''abc'' reset_stats) =
       Fin (50 / 18446744073709551516 * 2 * 100)
   \<and> cm_CPUPct (NormalizeStats ''abc'' reset_stats) \<noteq> Fin 0"
proof -
  have smaller: "CPUStats_SystemCPUUsage reset_stats < PreCPUStats_SystemCPUUsage reset_stats"
    by (simp add: reset_stats_def test_stats_def)
  have sysDelta: "float64_of_uint64
      (CPUStats_SystemCPUUsage reset_stats - PreCPUStats_SystemCPUUsage reset_stats) =
      18446744073709551516"
    by (simp add: reset_stats_def test_stats_def float64_of_uint64_def)
  have cpuDelta: "float64_of_uint64
      (CPUStats_CPUUsage_TotalUsage reset_stats - PreCPUStats_CPUUsage_TotalUsage reset_stats) =
      50"
    by (simp add: reset_stats_def test_stats_def float64_of_uint64_def)
  have cpus: "CPUStats_OnlineCPUs reset_stats \<noteq> 0"
    "float64_of_uint64 (CPUStats_OnlineCPUs reset_stats) = 2"
    by (simp_all add: reset_stats_def test_stats_def float64_of_uint64_def)
  have ne: "CPUStats_SystemCPUUsage reset_stats \<noteq> PreCPUStats_SystemCPUUsage reset_stats"
    using smaller by simp
  have val: "cm_CPUPct (NormalizeStats ''abc'' reset_stats) =
       Fin (50 / 18446744073709551516 * 2 * 100)"
    by (simp only: NormalizeStats_cpu ne if_False sysDelta cpuDelta cpus if_True
          not_False_eq_True)
  show ?thesis using smaller val by simp
qed


section \<open>Host sampler: failing reads\<close>

text \<open>
  C9 as stated fails when the CPU read is the one that fails: \<^verbatim>\<open>Collect\<close> returns the
  error with the empty metric, although memory, network, disk, load and uptime can be read.
\<close>

theorem collect_cpu_failure_discards_all:
  "readMem reads_cpu_fails = Inr (8589934592, 4294967296)
   \<and> readUptimeSec reads_cpu_fails = Inr 3600
   \<and> fst (Collect test_now reads_cpu_fails \<lparr>prevCPU = None\<rparr>) =
       (zero_HostMetric, Some ''open /proc/stat: permission denied'')
   \<and> hm_MemTotalBytes (fst (fst (Collect test_now reads_cpu_fails \<lparr>prevCPU = None\<rparr>))) = 0
   \<and> hm_UptimeSec (fst (fst (Collect test_now reads_cpu_fails \<lparr>prevCPU = None\<rparr>))) = 0"
  by (simp add: Collect_def reads_cpu_fails_def reads_ok_def zero_HostMetric_def)

text \<open>
  C9, amended. When the CPU read succeeds, \<^verbatim>\<open>Collect\<close> returns no error and a metric
  stamped \<open>now\<close> that carries the fields of every read that succeeded, whichever of the
  memory, network, disk, load and uptime reads failed: the CPU percentage computed from
  this CPU sample and the previous one (zero without a previous sample or without
  progress of the total), and the values of each other read that succeeded; the fields of
  a read that failed are zero. When the CPU read fails, it returns that error with the
  empty metric and keeps the previous CPU snapshot.
\<close>

theorem collect_keeps_read_fields:
  "(\<forall>tot idle. readCPU rd = Inr (tot, idle) \<longrightarrow>
      snd (fst (Collect now rd h)) = None
      \<and> prevCPU (snd (Collect now rd h)) = Some (tot, idle)
      \<and> hm_TS (fst (fst (Collect now rd h))) = now
      \<and> hm_CPUPct (fst (fst (Collect now rd h))) =
          (case prevCPU h of
             None \<Rightarrow> Fin 0
           | Some (ptot, pidle) \<Rightarrow>
               if tot - ptot > 0
               then Fin (100 * (1 - float64_of_uint64 (idle - pidle)
                                      / float64_of_uint64 (tot - ptot)))
               else Fin 0)
      \<and> (\<forall>memTotal memAvail. readMem rd = Inr (memTotal, memAvail) \<longrightarrow> memTotal > 0 \<longrightarrow>
            hm_MemTotalBytes (fst (fst (Collect now rd h))) = int64_of_uint64 memTotal
            \<and> hm_MemUsedBytes (fst (fst (Collect now rd h))) =
                int64_of_uint64 (memTotal - memAvail))
      \<and> (\<forall>memAvail. readMem rd = Inr (0, memAvail) \<longrightarrow>
            hm_MemTotalBytes (fst (fst (Collect now rd h))) = 0
            \<and> hm_MemUsedBytes (fst (fst (Collect now rd h))) = 0)
      \<and> (\<forall>err. readMem rd = Inl err \<longrightarrow>
            hm_MemTotalBytes (fst (fst (Collect now rd h))) = 0
            \<and> hm_MemUsedBytes (fst (fst (Collect now rd h))) = 0)
      \<and> (\<forall>rx tx. readNetDev rd = Inr (rx, tx) \<longrightarrow>
            hm_NetRXBytes (fst (fst (Collect now rd h))) = int64_of_uint64 rx
            \<and> hm_NetTXBytes (fst (fst (Collect now rd h))) = int64_of_uint64 tx)
      \<and> (\<forall>err. readNetDev rd = Inl err \<longrightarrow>
            hm_NetRXBytes (fst (fst (Collect now rd h))) = 0
            \<and> hm_NetTXBytes (fst (fst (Collect now rd h))) = 0)
      \<and> (\<forall>totalDisk usedDisk. readDiskUsage rd = Inr (totalDisk, usedDisk) \<longrightarrow>
            hm_DiskTotalBytes (fst (fst (Collect now rd h))) = int64_of_uint64 totalDisk
            \<and> hm_DiskUsedBytes (fst (fst (Collect now rd h))) = int64_of_uint64 usedDisk)
      \<and> (\<forall>err. readDiskUsage rd = Inl err \<longrightarrow>
            hm_DiskTotalBytes (fst (fst (Collect now rd h))) = 0
            \<and> hm_DiskUsedBytes (fst (fst (Collect now rd h))) = 0)
      \<and> (\<forall>l1 l5 l15. readLoadAvg rd = Inr (l1, l5, l15) \<longrightarrow>
            hm_Load1 (fst (fst (Collect now rd h))) = l1
            \<and> hm_Load5 (fst (fst (Collect now rd h))) = l5
            \<and> hm_Load15 (fst (fst (Collect now rd h))) = l15)
      \<and> (\<forall>err. readLoadAvg rd = Inl err \<longrightarrow>
            hm_Load1 (fst (fst (Collect now rd h))) = Fin 0
            \<and> hm_Load5 (fst (fst (Collect now rd h))) = Fin 0
            \<and> hm_Load15 (fst (fst (Collect now rd h))) = Fin 0)
      \<and> (\<forall>up. readUptimeSec rd = Inr up \<longrightarrow>
            hm_UptimeSec (fst (fst (Collect now rd h))) = up)
      \<and> (\<forall>err. readUptimeSec rd = Inl err \<longrightarrow>
            hm_UptimeSec (fst (fst (Collect now rd h))) = 0))
   \<and> (\<forall>err. readCPU rd = Inl err \<longrightarrow>
         Collect now rd h = ((zero_HostMetric, Some err), h))"
  by (auto simp: Collect_def Let_def zero_HostMetric_def
        split: sum.splits option.splits prod.splits)

text \<open>
  At a concrete input: the memory read fails after a previous CPU sample of (500, 200);
  the CPU percentage of the sample (1000, 400) is 60 and every other read is carried.
\<close>

theorem collect_keeps_read_fields_witness:
  "readCPU reads_mem_fails = Inr (1000, 400)
   \<and> readMem reads_mem_fails = Inl ''meminfo parse failed''
   \<and> readNetDev reads_mem_fails = Inr (111, 222)
   \<and> readDiskUsage reads_mem_fails = Inr (1000000, 250000)
   \<and> readLoadAvg reads_mem_fails = Inr (Fin 1, Fin 2, Fin 3)
   \<and> readUptimeSec reads_mem_fails = Inr 3600
   \<and> snd (fst (Collect test_now reads_mem_fails \<lparr>prevCPU = Some (500, 200)\<rparr>)) = None
   \<and> prevCPU (snd (Collect test_now reads_mem_fails \<lparr>prevCPU = Some (500, 200)\<rparr>)) =
       Some (1000, 400)
   \<and> hm_TS (fst (fst (Collect test_now reads_mem_fails \<lparr>prevCPU = Some (500, 200)\<rparr>))) =
       test_now
   \<and> hm_CPUPct (fst (fst (Collect test_now reads_mem_fails \<lparr>prevCPU = Some (500, 200)\<rparr>))) =
       Fin 60
   \<and> hm_MemTotalBytes (fst (fst (Collect test_now reads_mem_fails \<lparr>prevCPU = Some (500, 200)\<rparr>)))
       = 0
   \<and> hm_NetRXBytes (fst (fst (Collect test_now reads_mem_fails \<lparr>prevCPU = Some (500, 200)\<rparr>)))
       = 111
   \<and> hm_DiskTotalBytes
       (fst (fst (Collect test_now reads_mem_fails \<lparr>prevCPU = Some (500, 200)\<rparr>))) = 1000000
   \<and> hm_Load15 (fst (fst (Collect test_now reads_mem_fails \<lparr>prevCPU = Some (500, 200)\<rparr>))) =
       Fin 3
   \<and> hm_UptimeSec (fst (fst (Collect test_now reads_mem_fails \<lparr>prevCPU = Some (500, 200)\<rparr>)))
       = 3600
   \<and> readCPU reads_cpu_fails = Inl ''open /proc/stat: permission denied''
   \<and> Collect test_now reads_cpu_fails \<lparr>prevCPU = Some (500, 200)\<rparr> =
       ((zero_HostMetric, Some ''open /proc/stat: permission denied''),
        \<lparr>prevCPU = Some (500, 200)\<rparr>)"
proof -
  have r: "readCPU reads_mem_fails = Inr (1000, 400)"
    "readMem reads_mem_fails = Inl ''meminfo parse failed''"
    "readNetDev reads_mem_fails = Inr (111, 222)"
    "readDiskUsage reads_mem_fails = Inr (1000000, 250000)"
    "readLoadAvg reads_mem_fails = Inr (Fin 1, Fin 2, Fin 3)"
    "readUptimeSec reads_mem_fails = Inr 3600"
    "readCPU reads_cpu_fails = Inl ''open /proc/stat: permission denied''"
    by (simp_all add: reads_mem_fails_def reads_cpu_fails_def reads_ok_def)
  have i: "int64_of_uint64 111 = 111" "int64_of_uint64 1000000 = 1000000"
    by (simp_all add: int64_of_uint64_def)
  have d: "(1000::uint64) - 500 = 500" "(400::uint64) - 200 = 200" "(0::uint64) < 500"
    by simp_all
  have f: "float64_of_uint64 200 = 200" "float64_of_uint64 500 = 500"
    by (simp_all add: float64_of_uint64_def)
  have p: "100 * (1 - (200::real) / 500) = 60" by simp
  note a = collect_keeps_read_fields
             [of reads_mem_fails test_now "\<lparr>prevCPU = Some (500, 200)\<rparr>"]
  note b = collect_keeps_read_fields
             [of reads_cpu_fails test_now "\<lparr>prevCPU = Some (500, 200)\<rparr>"]
  show ?thesis using a b r i by (simp add: d f p)
qed


section \<open>Message sanitizer: the clamp comes last\<close>

lemma byte_a: "byte (CHR ''a'') = 97" "byte (CHR 0xC3) = 195" "byte (CHR 0xA9) = 169"
  "byte (CHR '' '') = 32" "byte (CHR ''b'') = 98"
  by (simp_all add: byte_def)

lemma DecodeRune_ascii: "byte c < RuneSelf \<Longrightarrow> DecodeRune (c # cs) = (byte c, 1)"
  by (simp add: DecodeRune_def)

lemma TrimLeft_keeps:
  "byte c < RuneSelf \<Longrightarrow> \<not> IsSpace (byte c) \<Longrightarrow> TrimLeft (c # cs) = c # cs"
  by (simp add: TrimLeft.simps [of "c # cs"] DecodeRune_ascii)

lemma DecodeLastRune_ascii:
  "byte c < RuneSelf \<Longrightarrow> DecodeLastRune (xs @ [c]) = (byte c, 1)"
  by (simp add: DecodeLastRune_def Let_def nth_append)

lemma TrimRight_keeps:
  "byte c < RuneSelf \<Longrightarrow> \<not> IsSpace (byte c) \<Longrightarrow> TrimRight (xs @ [c]) = xs @ [c]"
  by (simp add: TrimRight.simps [of "xs @ [c]"] DecodeLastRune_ascii)

lemma DecodeLastRune_accent:
  "DecodeLastRune (xs @ [CHR 0xC3, CHR 0xA9]) = (233, 2)"
proof -
  let ?s = "xs @ [CHR 0xC3, CHR 0xA9]"
  have i1: "nat (int (length ?s) - 1) = Suc (length xs)"
    and i2: "nat (int (length ?s) - 2) = length xs"
    by simp_all
  have n1: "?s ! nat (int (length ?s) - 1) = CHR 0xA9"
    unfolding i1 by (simp add: nth_append)
  have n2: "?s ! nat (int (length ?s) - 2) = CHR 0xC3"
    unfolding i2 by (simp add: nth_append)
  have d: "drop (nat (int (length ?s) - 2)) ?s = [CHR 0xC3, CHR 0xA9]"
    unfolding i2 by simp
  have dec: "DecodeRune [CHR 0xC3, CHR 0xA9] = (233, 2)"
    by (simp add: DecodeRune_def byte_a RuneSelf_def locb_def hicb_def)
  show ?thesis
    unfolding DecodeLastRune_def Let_def
    using n1 n2 d dec
    by (simp add: byte_a RuneSelf_def RuneStart_def)
qed

lemma ToValidUTF8_from_ascii_run:
  "byte a < RuneSelf \<Longrightarrow>
   ToValidUTF8_from bad (replicate n a @ rest) rep =
     replicate n a @ ToValidUTF8_from (if n = 0 then bad else False) rest rep"
proof (induction n arbitrary: bad)
  case 0
  then show ?case by simp
next
  case (Suc n)
  then show ?case
    by (simp add: ToValidUTF8_from.simps [of bad "a # replicate n a @ rest"])
qed

lemma ValidString_ascii_run:
  "byte a < RuneSelf \<Longrightarrow> ValidString (replicate n a @ rest) = ValidString rest"
proof (induction n)
  case 0
  then show ?case by simp
next
  case (Suc n)
  then show ?case
    by (simp add: ValidString.simps [of "a # replicate n a @ rest"])
qed

lemma TrimLeft_run:
  "byte a < RuneSelf \<Longrightarrow> \<not> IsSpace (byte a) \<Longrightarrow> 0 < n \<Longrightarrow>
   TrimLeft (replicate n a @ rest) = replicate n a @ rest"
  by (cases n) (simp_all add: TrimLeft_keeps)

lemma TrimRight_accent:
  "TrimRight (xs @ [CHR 0xC3, CHR 0xA9]) = xs @ [CHR 0xC3, CHR 0xA9]"
  by (simp add: TrimRight.simps [of "xs @ [CHR 0xC3, CHR 0xA9]"] DecodeLastRune_accent
        IsSpace_def)

lemma TrimRight_drops:
  "byte c < RuneSelf \<Longrightarrow> IsSpace (byte c) \<Longrightarrow> TrimRight (xs @ [c]) = TrimRight xs"
  by (simp add: TrimRight.simps [of "xs @ [c]"] DecodeLastRune_ascii)

lemma a_plain: "byte (CHR ''a'') < RuneSelf" "\<not> IsSpace (byte (CHR ''a''))"
  "byte (CHR ''b'') < RuneSelf" "\<not> IsSpace (byte (CHR ''b''))"
  "byte (CHR '' '') < RuneSelf" "IsSpace (byte (CHR '' ''))"
  by (simp_all add: byte_a RuneSelf_def IsSpace_def)

lemma valid_accent: "ToValidUTF8_from False [CHR 0xC3, CHR 0xA9] ''?'' = [CHR 0xC3, CHR 0xA9]"
  by (simp add: ToValidUTF8_from.simps [of _ "[CHR 0xC3, CHR 0xA9]"]
        ToValidUTF8_from.simps [of _ "[]"] DecodeRune_def byte_a RuneSelf_def locb_def hicb_def)

lemma sanitize_long_accent:
  "sanitizeMessage long_accent = replicate 3999 (CHR ''a'') @ [CHR 0xC3]"
proof -
  have t: "TrimSpace long_accent = long_accent"
    unfolding TrimSpace_def long_accent_def
    by (simp add: TrimLeft_run a_plain TrimRight_accent)
  have f: "filter (\<lambda>c. c \<noteq> CHR 0x00) long_accent = long_accent"
    unfolding long_accent_def by simp
  have v: "ToValidUTF8 long_accent ''?'' = long_accent"
    unfolding ToValidUTF8_def long_accent_def
    by (simp add: ToValidUTF8_from_ascii_run a_plain valid_accent)
  have l: "length long_accent = 4001" unfolding long_accent_def by simp
  have k: "take 4000 long_accent = replicate 3999 (CHR ''a'') @ [CHR 0xC3]"
    unfolding long_accent_def by simp
  show ?thesis
    unfolding sanitizeMessage_def Let_def t f v by (simp only: l k) simp
qed

lemma invalid_cut: "\<not> ValidString (replicate 3999 (CHR ''a'') @ [CHR 0xC3])"
  by (simp add: ValidString_ascii_run a_plain ValidString.simps [of "[CHR 0xC3]"]
        DecodeRune_def byte_a RuneSelf_def)

lemma valid_long_accent: "ValidString long_accent"
  unfolding long_accent_def
  by (simp add: ValidString_ascii_run a_plain ValidString.simps [of "[CHR 0xC3, CHR 0xA9]"]
        ValidString.simps [of "[]"] DecodeRune_def byte_a RuneSelf_def locb_def hicb_def)

lemma sanitize_long_gap:
  "sanitizeMessage long_gap = replicate 3999 (CHR ''a'') @ '' ''"
proof -
  have r: "TrimRight long_gap = long_gap"
    using TrimRight_keeps [of "CHR ''b''" "replicate 3999 (CHR ''a'') @ '' ''"]
    by (simp add: long_gap_def a_plain)
  have t: "TrimSpace long_gap = long_gap"
    unfolding TrimSpace_def using r by (simp add: long_gap_def TrimLeft_run a_plain)
  have f: "filter (\<lambda>c. c \<noteq> CHR 0x00) long_gap = long_gap"
    unfolding long_gap_def by simp
  have v0: "ToValidUTF8_from False '' b'' ''?'' = '' b''"
    by (simp add: ToValidUTF8_from.simps [of _ "'' b''"] ToValidUTF8_from.simps [of _ "''b''"]
          ToValidUTF8_from.simps [of _ "[]"] a_plain)
  have v: "ToValidUTF8 long_gap ''?'' = long_gap"
    unfolding ToValidUTF8_def long_gap_def
    by (simp add: ToValidUTF8_from_ascii_run a_plain v0)
  have l: "length long_gap = 4001" unfolding long_gap_def by simp
  have k: "take 4000 long_gap = replicate 3999 (CHR ''a'') @ '' ''"
    unfolding long_gap_def by simp
  show ?thesis
    unfolding sanitizeMessage_def Let_def t f v by (simp only: l k) simp
qed

lemma trim_cut_gap:
  "TrimSpace (replicate 3999 (CHR ''a'') @ '' '') = replicate 3999 (CHR ''a'')"
proof -
  have l: "TrimLeft (replicate 3999 (CHR ''a'') @ '' '') = replicate 3999 (CHR ''a'') @ '' ''"
    by (simp add: TrimLeft_run a_plain)
  have r1: "TrimRight (replicate 3999 (CHR ''a'') @ '' '') = TrimRight (replicate 3999 (CHR ''a''))"
    by (simp add: TrimRight_drops a_plain)
  have e: "(3999::nat) = Suc 3998" by simp
  have "replicate 3999 (CHR ''a'') = replicate 3998 (CHR ''a'') @ [CHR ''a'']"
    unfolding e by (simp only: replicate_Suc replicate_append_same)
  then have r2: "TrimRight (replicate 3999 (CHR ''a'')) = replicate 3999 (CHR ''a'')"
    using TrimRight_keeps [of "CHR ''a''" "replicate 3998 (CHR ''a'')"] by (simp add: a_plain)
  show ?thesis unfolding TrimSpace_def l r1 r2 ..
qed


lemma set_TrimLeft: "set (TrimLeft s) \<subseteq> set s"
proof (induction s rule: TrimLeft.induct)
  case (1 s)
  show ?case
  proof (cases "s \<noteq> [] \<and> IsSpace (fst (DecodeRune s))")
    case True
    then have "set (TrimLeft (drop (snd (DecodeRune s)) s)) \<subseteq> set (drop (snd (DecodeRune s)) s)"
      using "1.IH" by blast
    also have "\<dots> \<subseteq> set s" by (rule set_drop_subset)
    finally show ?thesis using True by (simp add: TrimLeft.simps [of s])
  next
    case False
    then show ?thesis by (auto simp: TrimLeft.simps [of s])
  qed
qed

lemma set_TrimRight: "set (TrimRight s) \<subseteq> set s"
proof (induction s rule: TrimRight.induct)
  case (1 s)
  show ?case
  proof (cases "s \<noteq> [] \<and> IsSpace (fst (DecodeLastRune s)) \<and> 0 < snd (DecodeLastRune s)")
    case True
    then have "set (TrimRight (take (length s - snd (DecodeLastRune s)) s))
                 \<subseteq> set (take (length s - snd (DecodeLastRune s)) s)"
      using "1.IH" by blast
    also have "\<dots> \<subseteq> set s" by (rule set_take_subset)
    finally show ?thesis using True by (simp add: TrimRight.simps [of s])
  next
    case False
    then show ?thesis by (auto simp: TrimRight.simps [of s])
  qed
qed

lemma set_TrimSpace: "set (TrimSpace s) \<subseteq> set s"
  unfolding TrimSpace_def using set_TrimRight set_TrimLeft by blast

lemma set_ToValidUTF8_from:
  "set (ToValidUTF8_from bad s rep) \<subseteq> set s \<union> set rep"
proof (induction bad s rep rule: ToValidUTF8_from.induct)
  case (1 invalid s replacement)
  show ?case
  proof (cases s)
    case Nil
    then show ?thesis by (simp add: ToValidUTF8_from.simps [of invalid "[]"])
  next
    case (Cons c cs)
    show ?thesis
    proof (cases "byte c < RuneSelf")
      case True
      have eq: "ToValidUTF8_from invalid s replacement =
                  c # ToValidUTF8_from False cs replacement"
        using Cons True by (subst ToValidUTF8_from.simps) simp
      show ?thesis using Cons "1.IH"(1) [OF Cons True] unfolding eq by auto
    next
      case nonascii: False
      show ?thesis
      proof (cases "snd (DecodeRune s) \<le> 1")
        case True
        have eq: "ToValidUTF8_from invalid s replacement =
                    (if invalid then [] else replacement)
                      @ ToValidUTF8_from True cs replacement"
          using Cons nonascii True by (subst ToValidUTF8_from.simps) simp
        show ?thesis using Cons "1.IH"(2) [OF Cons nonascii True] unfolding eq by auto
      next
        case False
        have eq: "ToValidUTF8_from invalid s replacement =
                    take (snd (DecodeRune s)) s
                      @ ToValidUTF8_from False (drop (snd (DecodeRune s)) s) replacement"
          using Cons nonascii False by (subst ToValidUTF8_from.simps) simp
        have t: "set (take (snd (DecodeRune s)) s) \<subseteq> set s" by (rule set_take_subset)
        have d: "set (drop (snd (DecodeRune s)) s) \<subseteq> set s" by (rule set_drop_subset)
        show ?thesis using "1.IH"(3) [OF Cons nonascii False] t d unfolding eq by auto
      qed
    qed
  qed
qed

text \<open>
  What the sanitizer does guarantee for every message: at most 4000 bytes and no NUL byte.
\<close>

lemma sanitizeMessage_bounds:
  "length (sanitizeMessage msg) \<le> 4000 \<and> CHR 0x00 \<notin> set (sanitizeMessage msg)"
proof -
  let ?m2 = "filter (\<lambda>c. c \<noteq> CHR 0x00) (TrimSpace msg)"
  let ?m3 = "TrimSpace (ToValidUTF8 ?m2 ''?'')"
  have "set ?m3 \<subseteq> set (ToValidUTF8 ?m2 ''?'')" by (rule set_TrimSpace)
  also have "\<dots> \<subseteq> set ?m2 \<union> set ''?''"
    unfolding ToValidUTF8_def by (rule set_ToValidUTF8_from)
  finally have "CHR 0x00 \<notin> set ?m3" by auto
  moreover have "set (take 4000 ?m3) \<subseteq> set ?m3" by (rule set_take_subset)
  ultimately have n: "CHR 0x00 \<notin> set (sanitizeMessage msg)"
    by (auto simp: sanitizeMessage_def Let_def)
  have l: "length (sanitizeMessage msg) \<le> 4000"
    by (simp add: sanitizeMessage_def Let_def)
  show ?thesis using l n by blast
qed


text \<open>
  C5. Two messages of 4001 bytes, both clean (valid UTF-8, trimmed, no NUL). The clamp
  cuts at byte 4000 after the cleaning is done: the first message loses the second byte of
  its last rune and the result is not valid UTF-8; the second is cut after a space and the
  result has trailing white space.
\<close>

theorem sanitizer_clamp_breaks_invariants:
  "ValidString long_accent
   \<and> sanitizeMessage long_accent = replicate 3999 (CHR ''a'') @ [CHR 0xC3]
   \<and> \<not> ValidString (sanitizeMessage long_accent)
   \<and> TrimSpace long_gap = long_gap
   \<and> sanitizeMessage long_gap = replicate 3999 (CHR ''a'') @ '' ''
   \<and> TrimSpace (sanitizeMessage long_gap) \<noteq> sanitizeMessage long_gap"
proof -
  have t: "TrimSpace long_gap = long_gap"
    using TrimRight_keeps [of "CHR ''b''" "replicate 3999 (CHR ''a'') @ '' ''"]
    by (simp add: TrimSpace_def long_gap_def TrimLeft_run a_plain)
  have n: "replicate 3999 (CHR ''a'') \<noteq> replicate 3999 (CHR ''a'') @ '' ''"
    by simp
  show ?thesis
    using valid_long_accent sanitize_long_accent invalid_cut t sanitize_long_gap trim_cut_gap n
    by simp
qed

section \<open>Log stream parser: frames and lines\<close>

lemma byte_char_of: "byte (char_of (n::nat)) = n mod 256"
  by (simp add: byte_def)

lemma Uint32_PutUint32:
  assumes n: "n < 4294967296"
  shows "Uint32 (PutUint32 n @ rest) = n"
proof -
  define q1 where "q1 = n div 256"
  define q2 where "q2 = q1 div 256"
  define q3 where "q3 = q2 div 256"
  have e2: "n div 65536 = q2"
    unfolding q2_def q1_def by (simp add: div_mult2_eq [symmetric])
  have e3: "n div 16777216 = q3"
    unfolding q3_def q2_def q1_def by (simp add: div_mult2_eq [symmetric])
  have s0: "n = n mod 256 + 256 * q1" unfolding q1_def by simp
  have s1: "q1 = q1 mod 256 + 256 * q2" unfolding q2_def by simp
  have s2: "q2 = q2 mod 256 + 256 * q3" unfolding q3_def by simp
  have "q3 < 256" using n e3 by (simp add: less_mult_imp_div_less)
  then have s3: "q3 mod 256 = q3" by simp
  have "Uint32 (PutUint32 n @ rest) =
          n mod 256 + q1 mod 256 * 256 + q2 mod 256 * 65536 + q3 mod 256 * 16777216"
    by (simp add: Uint32_def PutUint32_def byte_char_of e2 e3 q1_def [symmetric])
  also have "\<dots> = n" using s0 s1 s2 s3 by linarith
  finally show ?thesis .
qed

lemma frame_parts:
  "take 8 (frame sid p @ rest) = [char_of sid, CHR 0x00, CHR 0x00, CHR 0x00] @ PutUint32 (length p)"
  "drop 8 (frame sid p @ rest) = p @ rest"
  "length (frame sid p @ rest) = 8 + length p + length rest"
  "(frame sid p @ rest) ! 0 = char_of sid"
  by (simp_all add: frame_def PutUint32_def)

lemma frame_header:
  assumes "sid = 1 \<or> sid = 2"
  shows "isMultiplexHeader (take 8 (frame sid p @ rest))"
proof -
  have "isMultiplexHeader ([char_of sid, CHR 0x00, CHR 0x00, CHR 0x00] @ PutUint32 (length p))"
    using assms by (auto simp: isMultiplexHeader_def PutUint32_def byte_def)
  then show ?thesis by (simp only: frame_parts(1))
qed

lemma frame_stream: "sid = 1 \<or> sid = 2 \<Longrightarrow> (byte (char_of (sid::nat)) = 2) = (sid = 2)"
  by (auto simp: byte_char_of)

lemma parse_frame:
  assumes sid: "sid = 1 \<or> sid = 2" and len: "length p < 4294967296"
  shows "ParseDockerStream env serviceID containerID k (frame sid p @ rest) =
     (if p = [] then ParseDockerStream env serviceID containerID k rest
      else (emitEntry env k p (if sid = 2 then ''stderr'' else ''stdout'') serviceID containerID
              # fst (ParseDockerStream env serviceID containerID (Suc k) rest),
            snd (ParseDockerStream env serviceID containerID (Suc k) rest)))"
proof -
  let ?br = "frame sid p @ rest"
  have d4: "drop 4 (take 8 ?br) = PutUint32 (length p) @ []"
    by (simp only: frame_parts(1)) simp
  have u: "Uint32 (drop 4 (take 8 ?br)) = length p"
    unfolding d4 using len by (rule Uint32_PutUint32)
  have h: "isMultiplexHeader (take 8 ?br)" using sid by (rule frame_header)
  have l: "\<not> length ?br < 8" unfolding frame_parts(3) by linarith
  have s: "(byte (?br ! 0) = 2) = (sid = 2)"
    using sid by (simp only: frame_parts(4) frame_stream)
  have d8: "drop 8 ?br = p @ rest" by (rule frame_parts(2))
  have c1: "(length p = 0) = (p = [])" by simp
  have c2: "\<not> length (p @ rest) < length p" by simp
  have c3: "take (length p) (p @ rest) = p" by simp
  have c4: "drop (length p) (p @ rest) = rest" by simp
  show ?thesis
    by (subst ParseDockerStream.simps)
       (simp only: u h l s d8 c1 c2 c3 c4 if_False if_True not_True_eq_False simp_thms,
        simp only: append_Nil cong: if_cong)
qed

lemma parse_empty: "ParseDockerStream env serviceID containerID k [] = ([], None)"
  by (subst ParseDockerStream.simps) (simp add: parsePlainStream_def scanLines.simps [of "[]"])

lemma parse_frames:
  assumes "\<forall>f \<in> set fs. (fst f = 1 \<or> fst f = 2) \<and> length (snd f) < 4294967296"
  shows "ParseDockerStream env serviceID containerID k (frames fs) =
           (emitFrames env serviceID containerID k fs, None)"
  using assms
proof (induction fs arbitrary: k)
  case Nil
  then show ?case by (simp add: parse_empty)
next
  case (Cons f fs)
  obtain sid p where f: "f = (sid, p)" by (cases f)
  have sid: "sid = 1 \<or> sid = 2" and len: "length p < 4294967296"
    using Cons.prems f by auto
  have rest: "\<forall>f \<in> set fs. (fst f = 1 \<or> fst f = 2) \<and> length (snd f) < 4294967296"
    using Cons.prems by simp
  show ?case
    unfolding f frames.simps
    by (simp add: parse_frame [OF sid len] Cons.IH [OF rest])
qed

lemma length_emitFrames:
  "length (emitFrames env serviceID containerID k fs) = length [f \<leftarrow> fs. snd f \<noteq> []]"
  by (induction fs arbitrary: k) auto

lemma streams_emitFrames:
  "map le_Stream (emitFrames env serviceID containerID k fs) =
   map (\<lambda>f. if fst f = 2 then ''stderr'' else ''stdout'') [f \<leftarrow> fs. snd f \<noteq> []]"
  by (induction fs arbitrary: k) (auto simp: emitEntry_def Let_def split: prod.splits)

lemma count_lines_no_newline:
  assumes "d \<noteq> []" and "dropWhile (\<lambda>c. c \<noteq> CHR 0x0A) d = []"
  shows "count_lines d = 1"
proof -
  have all: "\<forall>x \<in> set d. x \<noteq> CHR 0x0A"
    using assms(2) by (simp add: dropWhile_eq_Nil_conv)
  then have f: "[c \<leftarrow> d. c = CHR 0x0A] = []" by (simp add: filter_empty_conv)
  have "last d \<in> set d" using assms(1) by simp
  then have "last d \<noteq> CHR 0x0A" using all by blast
  then show ?thesis using assms(1) f by (simp add: count_lines_def)
qed

lemma count_lines_newline:
  assumes "dropWhile (\<lambda>c. c \<noteq> CHR 0x0A) d = nl # rest"
  shows "count_lines d = Suc (count_lines rest)"
proof -
  let ?tw = "takeWhile (\<lambda>c. c \<noteq> CHR 0x0A) d"
  have d: "d = ?tw @ nl # rest"
    using assms takeWhile_dropWhile_id [of "\<lambda>c. c \<noteq> CHR 0x0A" d] by simp
  have nl: "nl = CHR 0x0A"
    using assms hd_dropWhile [of "\<lambda>c. c \<noteq> CHR 0x0A" d] by auto
  have "\<forall>x \<in> set ?tw. x \<noteq> CHR 0x0A" by (auto dest: set_takeWhileD)
  then have f: "[c \<leftarrow> ?tw. c = CHR 0x0A] = []" by (simp add: filter_empty_conv)
  have "count_lines (?tw @ nl # rest) = Suc (count_lines rest)"
    using f nl by (simp add: count_lines_def)
  then show ?thesis using d by simp
qed

lemma scanLines_count:
  assumes "\<forall>n. length (takeWhile (\<lambda>c. c \<noteq> CHR 0x0A) (drop n d)) < MaxScanTokenSize"
  shows "snd (scanLines d) = None \<and> length (fst (scanLines d)) = count_lines d"
  using assms
proof (induction d rule: scanLines.induct)
  case (1 d)
  let ?P = "\<lambda>c. c \<noteq> CHR 0x0A"
  show ?case
  proof (cases "d = []")
    case True
    then show ?thesis by (simp add: scanLines.simps [of "[]"] count_lines_def)
  next
    case False
    have short: "\<not> MaxScanTokenSize \<le> length (takeWhile ?P d)"
      using "1.prems" [rule_format, of 0] by simp
    show ?thesis
    proof (cases "dropWhile ?P d")
      case Nil
      have sl: "scanLines d = ([dropCR d], None)"
        by (subst scanLines.simps) (simp only: False short Nil if_False list.case)
      show ?thesis
        using count_lines_no_newline [OF False Nil] by (simp add: sl)
    next
      case (Cons nl rest)
      have d: "d = takeWhile ?P d @ nl # rest"
        using Cons takeWhile_dropWhile_id [of ?P d] by simp
      have "\<forall>n. length (takeWhile ?P (drop n rest)) < MaxScanTokenSize"
      proof
        fix n
        have "drop (n + Suc (length (takeWhile ?P d))) d = drop n rest"
          by (subst d) (simp del: takeWhile_dropWhile_id)
        then show "length (takeWhile ?P (drop n rest)) < MaxScanTokenSize"
          using "1.prems" [rule_format, of "n + Suc (length (takeWhile ?P d))"] by simp
      qed
      then have ih: "snd (scanLines rest) = None \<and> length (fst (scanLines rest)) = count_lines rest"
        using "1.IH" [OF False short Cons] by blast
      have sl: "scanLines d =
          (dropCR (takeWhile ?P d) # fst (scanLines rest), snd (scanLines rest))"
        by (subst scanLines.simps) (simp only: False short Cons if_False list.case)
      show ?thesis
        using ih count_lines_newline [OF Cons] by (simp add: sl)
    qed
  qed
qed

lemma length_emitAll:
  "length (emitAll env k stream serviceID containerID ls) = length ls"
  by (induction ls arbitrary: k) auto

lemma parse_plain:
  assumes "length br < 8 \<or> \<not> isMultiplexHeader (take 8 br)"
  shows "ParseDockerStream env serviceID containerID k br =
           parsePlainStream env serviceID containerID k br"
  using assms by (subst ParseDockerStream.simps) auto

lemma stream_emitAll:
  "e \<in> set (emitAll env k stream serviceID containerID ls) \<Longrightarrow> le_Stream e = stream"
  by (induction ls arbitrary: k) (auto simp: emitEntry_def Let_def split: prod.splits)

lemma hello_trim: "TrimSpace hello_payload = ''2026-01-01T00:00:00Z hello world''"
  by code_simp

lemma hello_split:
  "SplitN_space_2 ''2026-01-01T00:00:00Z hello world'' = [''2026-01-01T00:00:00Z'', ''hello world'']"
  by code_simp

lemma hello_upper: "ToUpper f ''hello world'' = ''HELLO WORLD''"
proof -
  have "list_all (\<lambda>c. byte c < RuneSelf) ''hello world''" by code_simp
  moreover have "map ascii_upper ''hello world'' = ''HELLO WORLD''" by code_simp
  ultimately show ?thesis by (simp only: ToUpper_def if_True)
qed

lemma hello_level: "inferLevel env ''hello world'' = ''INFO''"
proof -
  have "\<not> Contains ''HELLO WORLD'' ''ERROR''" "\<not> Contains ''HELLO WORLD'' ''FATAL''"
    "\<not> Contains ''HELLO WORLD'' ''PANIC''" "\<not> Contains ''HELLO WORLD'' ''WARN''"
    "\<not> Contains ''HELLO WORLD'' ''DEBUG''"
    by code_simp+
  then show ?thesis by (simp add: inferLevel_def hello_upper)
qed

lemma hello_sanitize: "sanitizeMessage ''hello world'' = ''hello world''"
  by code_simp

lemma hello_entry:
  "time_Parse env ''2026-01-01T00:00:00Z'' = Some t \<Longrightarrow>
   emitEntry env k hello_payload stream serviceID containerID =
     \<lparr>le_TS = t, le_ServiceID = serviceID, le_ContainerID = containerID, le_Level = ''INFO'',
      le_Stream = stream, le_Message = ''hello world''\<rparr>"
  by (simp add: emitEntry_def hello_trim hello_split hello_level hello_sanitize)

text \<open>
  C4 as stated fails for a frame with an empty payload: the parser skips it and emits
  nothing for it.
\<close>

theorem empty_frame_emits_nothing:
  "frames [(1, [])] =
     [CHR 0x01, CHR 0x00, CHR 0x00, CHR 0x00, CHR 0x00, CHR 0x00, CHR 0x00, CHR 0x00]
   \<and> ParseDockerStream test_penv ''svc'' ''cid'' 0 (frames [(1, [])]) = ([], None)"
proof -
  have f: "frames [(1, [])] =
     [CHR 0x01, CHR 0x00, CHR 0x00, CHR 0x00, CHR 0x00, CHR 0x00, CHR 0x00, CHR 0x00]"
    by (simp add: frame_def PutUint32_def char_of_eq_iff)
  have "ParseDockerStream test_penv ''svc'' ''cid'' 0 (frame 1 [] @ []) = ([], None)"
    by (subst parse_frame) (simp_all add: parse_empty)
  then show ?thesis using f by simp
qed

text \<open>
  C4, amended. A stream of multiplexed frames (stream byte 1 or 2, payload shorter than
  \<open>2^32\<close> bytes) is read without error and yields one entry per frame with a non-empty
  payload, in order, each entry made from its frame's payload, with stream stderr for
  stream byte 2 and stdout for 1; a frame with an empty payload yields nothing. A stream
  that does not start with a frame header is read as plain text and, every line being
  shorter than the scanner's buffer, yields one stdout entry per line. For the frame of
  the test, with the payload \<open>2026-01-01T00:00:00Z hello world\<close> and a newline, the one
  entry has the parsed instant of the timestamp, level INFO, stream stdout and message
  \<open>hello world\<close>.
\<close>

theorem parser_entries:
  "((\<forall>f \<in> set fs. (fst f = 1 \<or> fst f = 2) \<and> length (snd f) < 4294967296) \<longrightarrow>
      ParseDockerStream env serviceID containerID k (frames fs) =
        (emitFrames env serviceID containerID k fs, None)
      \<and> length (emitFrames env serviceID containerID k fs) = length [f \<leftarrow> fs. snd f \<noteq> []]
      \<and> map le_Stream (emitFrames env serviceID containerID k fs) =
          map (\<lambda>f. if fst f = 2 then ''stderr'' else ''stdout'') [f \<leftarrow> fs. snd f \<noteq> []])
   \<and> ((length br < 8 \<or> \<not> isMultiplexHeader (take 8 br))
        \<and> (\<forall>n. length (takeWhile (\<lambda>c. c \<noteq> CHR 0x0A) (drop n br)) < MaxScanTokenSize) \<longrightarrow>
      snd (ParseDockerStream env serviceID containerID k br) = None
      \<and> length (fst (ParseDockerStream env serviceID containerID k br)) = count_lines br
      \<and> (\<forall>e \<in> set (fst (ParseDockerStream env serviceID containerID k br)).
            le_Stream e = ''stdout''))
   \<and> (time_Parse env ''2026-01-01T00:00:00Z'' = Some t \<longrightarrow>
      ParseDockerStream env ''svc'' ''cid'' k (frame 1 hello_payload) =
        ([\<lparr>le_TS = t, le_ServiceID = ''svc'', le_ContainerID = ''cid'', le_Level = ''INFO'',
           le_Stream = ''stdout'', le_Message = ''hello world''\<rparr>], None))"
proof (intro conjI impI)
  assume wf: "\<forall>f \<in> set fs. (fst f = 1 \<or> fst f = 2) \<and> length (snd f) < 4294967296"
  show "ParseDockerStream env serviceID containerID k (frames fs) =
        (emitFrames env serviceID containerID k fs, None)"
    using wf by (rule parse_frames)
next
  show "length (emitFrames env serviceID containerID k fs) = length [f \<leftarrow> fs. snd f \<noteq> []]"
    by (rule length_emitFrames)
next
  show "map le_Stream (emitFrames env serviceID containerID k fs) =
          map (\<lambda>f. if fst f = 2 then ''stderr'' else ''stdout'') [f \<leftarrow> fs. snd f \<noteq> []]"
    by (rule streams_emitFrames)
next
  assume a: "(length br < 8 \<or> \<not> isMultiplexHeader (take 8 br))
        \<and> (\<forall>n. length (takeWhile (\<lambda>c. c \<noteq> CHR 0x0A) (drop n br)) < MaxScanTokenSize)"
  then have p: "ParseDockerStream env serviceID containerID k br =
           parsePlainStream env serviceID containerID k br"
    using parse_plain by blast
  have c: "snd (scanLines br) = None \<and> length (fst (scanLines br)) = count_lines br"
    using a scanLines_count by blast
  show "snd (ParseDockerStream env serviceID containerID k br) = None"
    using c by (simp add: p parsePlainStream_def)
  show "length (fst (ParseDockerStream env serviceID containerID k br)) = count_lines br"
    using c by (simp add: p parsePlainStream_def length_emitAll)
  show "\<forall>e \<in> set (fst (ParseDockerStream env serviceID containerID k br)).
            le_Stream e = ''stdout''"
    by (auto simp: p parsePlainStream_def dest: stream_emitAll)
next
  assume tp: "time_Parse env ''2026-01-01T00:00:00Z'' = Some t"
  have l: "length hello_payload < 4294967296" by (simp add: hello_payload_def)
  have ne: "hello_payload \<noteq> []" by (simp add: hello_payload_def)
  have "ParseDockerStream env ''svc'' ''cid'' k (frame 1 hello_payload @ []) =
          ([emitEntry env k hello_payload ''stdout'' ''svc'' ''cid''], None)"
    by (subst parse_frame) (simp_all add: l ne parse_empty)
  then show "ParseDockerStream env ''svc'' ''cid'' k (frame 1 hello_payload) =
        ([\<lparr>le_TS = t, le_ServiceID = ''svc'', le_ContainerID = ''cid'', le_Level = ''INFO'',
           le_Stream = ''stdout'', le_Message = ''hello world''\<rparr>], None)"
    using hello_entry [OF tp] by simp
qed

text \<open>
  At concrete inputs: a stderr frame with the test's payload, an empty frame and a stdout
  frame give two entries; two lines of plain text give two entries; the test's frame gives
  the entry the test expects, stamped 2026-01-01T00:00:00Z.
\<close>

theorem parser_entries_witness:
  "list_all (\<lambda>f. (fst f = 1 \<or> fst f = 2) \<and> length (snd f) < 4294967296) three_frames
   \<and> ParseDockerStream test_penv ''svc'' ''cid'' 0 (frames three_frames) =
       (emitFrames test_penv ''svc'' ''cid'' 0 three_frames, None)
   \<and> length (emitFrames test_penv ''svc'' ''cid'' 0 three_frames) = 2
   \<and> map le_Stream (emitFrames test_penv ''svc'' ''cid'' 0 three_frames) = [''stderr'', ''stdout'']
   \<and> (length two_lines < 8 \<or> \<not> isMultiplexHeader (take 8 two_lines))
   \<and> (\<forall>n. length (takeWhile (\<lambda>c. c \<noteq> CHR 0x0A) (drop n two_lines)) < MaxScanTokenSize)
   \<and> snd (ParseDockerStream test_penv ''svc'' ''cid'' 0 two_lines) = None
   \<and> length (fst (ParseDockerStream test_penv ''svc'' ''cid'' 0 two_lines)) = 2
   \<and> time_Parse test_penv ''2026-01-01T00:00:00Z'' = Some (1767225600 * Second)
   \<and> ParseDockerStream test_penv ''svc'' ''cid'' 0 (frame 1 hello_payload) =
       ([\<lparr>le_TS = 1767225600 * Second, le_ServiceID = ''svc'', le_ContainerID = ''cid'',
          le_Level = ''INFO'', le_Stream = ''stdout'', le_Message = ''hello world''\<rparr>], None)"
proof -
  have h1: "\<forall>f \<in> set three_frames. (fst f = 1 \<or> fst f = 2) \<and> length (snd f) < 4294967296"
    by (simp add: three_frames_def hello_payload_def)
  have n1: "length [f \<leftarrow> three_frames. snd f \<noteq> []] = 2"
    by (simp add: three_frames_def hello_payload_def)
  have n2: "map (\<lambda>f. if fst f = 2 then ''stderr'' else ''stdout'') [f \<leftarrow> three_frames. snd f \<noteq> []]
              = [''stderr'', ''stdout'']"
    by (simp add: three_frames_def hello_payload_def)
  have h2: "length two_lines < 8 \<or> \<not> isMultiplexHeader (take 8 two_lines)"
    by (simp add: two_lines_def isMultiplexHeader_def byte_def)
  have h3: "\<forall>n. length (takeWhile (\<lambda>c. c \<noteq> CHR 0x0A) (drop n two_lines)) < MaxScanTokenSize"
  proof
    fix n
    have "length (takeWhile (\<lambda>c. c \<noteq> CHR 0x0A) (drop n two_lines)) \<le> length (drop n two_lines)"
      by (rule length_takeWhile_le)
    also have "\<dots> \<le> length two_lines" by simp
    also have "\<dots> < MaxScanTokenSize" by (simp add: two_lines_def MaxScanTokenSize_def)
    finally show "length (takeWhile (\<lambda>c. c \<noteq> CHR 0x0A) (drop n two_lines)) < MaxScanTokenSize" .
  qed
  have n3: "count_lines two_lines = 2"
    by (simp add: count_lines_def two_lines_def)
  have h4: "time_Parse test_penv ''2026-01-01T00:00:00Z'' = Some (1767225600 * Second)"
    by (simp add: test_penv_def)
  note t = parser_entries [where fs = three_frames and env = test_penv and serviceID = "''svc''"
      and containerID = "''cid''" and k = 0 and br = two_lines and t = "1767225600 * Second"]
  have h0: "list_all (\<lambda>f. (fst f = 1 \<or> fst f = 2) \<and> length (snd f) < 4294967296) three_frames"
    using h1 by (simp only: list_all_iff)
  show ?thesis using t h0 h1 h2 h3 h4 n1 n2 n3 by simp
qed


end
